theory Spec2Isabelle
  imports Main
begin

section \<open>Task handling of the Fable Python library (\<^verbatim>\<open>fable_library/task.py\<close>)\<close>

text \<open>
  The module is a thin layer over Python's \<^verbatim>\<open>asyncio\<close>: every function of the module is
  a short sequence of calls into the event loop, the \<^verbatim>\<open>Future\<close> class and the coroutine
  protocol.  The module's functions are embedded one by one in the second half of this
  theory; the first half is the host they call: objects live in stores (lists, an object
  is its index), an operation takes the world and returns the new one, and an exception
  is a value of type \<open>raised\<close>.

  The host follows CPython's \<^verbatim>\<open>asyncio\<close> (\<^verbatim>\<open>futures.py\<close>, \<^verbatim>\<open>tasks.py\<close>,
  \<^verbatim>\<open>base_events.py\<close>, \<^verbatim>\<open>events.py\<close>, \<^verbatim>\<open>runners.py\<close>) for one thread of control.  Outside
  the model: other threads, timers and I/O, debug mode, context variables, task names,
  the process-control exceptions \<^verbatim>\<open>SystemExit\<close> and \<^verbatim>\<open>KeyboardInterrupt\<close>, and
  \<^verbatim>\<open>StopIteration\<close> instances as future exceptions.
\<close>

subsection \<open>Values, exceptions, references\<close>

text \<open>Instances of \<^verbatim>\<open>Exception\<close>.  \<open>UserError\<close> stands for any exception class of the
  caller's own.\<close>

datatype exn =
    InvalidStateError
  | RuntimeError string
  | TypeError string
  | ValueError string
  | UserError string

text \<open>What a \<^verbatim>\<open>raise\<close> can carry: an \<^verbatim>\<open>Exception\<close>, or \<^verbatim>\<open>asyncio.CancelledError\<close>, which
  derives from \<^verbatim>\<open>BaseException\<close> and is no \<^verbatim>\<open>Exception\<close>.\<close>

datatype raised = Exc exn | CancelledError

datatype 'v pyval = PyNone | PyVal 'v

text \<open>An awaitable handed to the module is a reference to a coroutine object or to a
  future (a task is a future).  A reference outside its store stands for an object that
  is neither.\<close>

datatype aref = CoroRef nat | FutRef nat

subsection \<open>Coroutine objects\<close>

text \<open>
  The bodies of the coroutine functions the module defines, and of the simplest
  coroutines a caller can pass in:
  \<^item> \<open>Return v\<close>: \<^verbatim>\<open>return v\<close> (\<^verbatim>\<open>zero\<close>, \<^verbatim>\<open>from_result\<close>);
  \<^item> \<open>RaiseB e\<close>: \<^verbatim>\<open>raise e\<close>;
  \<^item> \<open>ReturnAwait x\<close>: \<^verbatim>\<open>return await x\<close> (the \<^verbatim>\<open>runner\<close> closures);
  \<^item> \<open>ReturnAwaitEnsure x\<close>: \<^verbatim>\<open>return await asyncio.ensure_future(x)\<close> (\<^verbatim>\<open>get_value\<close>).
\<close>

datatype 'v body =
    Return "'v pyval"
  | RaiseB raised
  | ReturnAwait aref
  | ReturnAwaitEnsure aref

datatype cstatus = Created | Suspended | Running | Closed

record 'v coroutine =
  cbody :: "'v body"
  cstatus :: cstatus

subsection \<open>Futures, tasks, event loops\<close>

datatype 'v fstate = Pending | Finished "'v pyval" | Faulted exn | Cancelled

text \<open>Done callbacks: \<^verbatim>\<open>Task.__wakeup\<close> of a task, and \<^verbatim>\<open>_run_until_complete_cb\<close>.\<close>

datatype done_cb = Wakeup nat | RunUntilCompleteCb

record 'v py_future =
  fstate :: "'v fstate"
  floop :: nat
  fcallbacks :: "done_cb list"
  log_traceback :: bool
  task_coro :: "nat option"

text \<open>What a handle of the ready queue calls: the three \<^verbatim>\<open>action\<close> closures of
  \<^verbatim>\<open>TaskCompletionSource\<close>, \<^verbatim>\<open>Task.__step\<close>, and the done callbacks applied to their
  future.\<close>

datatype 'v callback =
    SetResultAction nat "'v pyval"
  | CancelAction nat
  | SetExceptionAction nat exn
  | TaskStep nat "raised option"
  | TaskWakeup nat nat
  | StopLoop nat

text \<open>Reports to \<^verbatim>\<open>loop.call_exception_handler\<close>.\<close>

datatype log_entry = CallbackException raised | NeverRetrieved nat exn

record 'v event_loop =
  ready :: "'v callback list"
  closed :: bool
  stopping :: bool
  exc_log :: "log_entry list"

text \<open>
  \<open>running_loop\<close> is \<^verbatim>\<open>events._get_running_loop()\<close>, \<open>current_loop\<close> the policy's loop
  of the thread, and \<open>policy_creates_loop\<close> tells whether the policy's
  \<^verbatim>\<open>get_event_loop\<close> makes a loop when there is none (CPython up to 3.13: in the main
  thread, until \<^verbatim>\<open>set_event_loop\<close> is first called; from 3.14 on: never).
\<close>

record 'v world =
  coros :: "'v coroutine list"
  futs :: "'v py_future list"
  loops :: "'v event_loop list"
  running_loop :: "nat option"
  current_loop :: "nat option"
  policy_creates_loop :: bool

definition upd_coro :: "nat \<Rightarrow> ('v coroutine \<Rightarrow> 'v coroutine) \<Rightarrow> 'v world \<Rightarrow> 'v world" where
  "upd_coro c g w = w\<lparr>coros := (coros w)[c := g (coros w ! c)]\<rparr>"

definition upd_fut :: "nat \<Rightarrow> ('v py_future \<Rightarrow> 'v py_future) \<Rightarrow> 'v world \<Rightarrow> 'v world" where
  "upd_fut f g w = w\<lparr>futs := (futs w)[f := g (futs w ! f)]\<rparr>"

definition upd_loop :: "nat \<Rightarrow> ('v event_loop \<Rightarrow> 'v event_loop) \<Rightarrow> 'v world \<Rightarrow> 'v world" where
  "upd_loop l g w = w\<lparr>loops := (loops w)[l := g (loops w ! l)]\<rparr>"

definition set_status :: "nat \<Rightarrow> cstatus \<Rightarrow> 'v world \<Rightarrow> 'v world" where
  "set_status c s w = upd_coro c (\<lambda>C. C\<lparr>cstatus := s\<rparr>) w"

text \<open>Calling a coroutine function makes a new coroutine object and runs nothing.\<close>

definition new_coro :: "'v body \<Rightarrow> 'v world \<Rightarrow> nat \<times> 'v world" where
  "new_coro b w = (length (coros w), w\<lparr>coros := coros w @ [\<lparr>cbody = b, cstatus = Created\<rparr>]\<rparr>)"

subsection \<open>The event loop's queue\<close>

definition closed_error :: raised where
  "closed_error = Exc (RuntimeError ''Event loop is closed'')"

text \<open>\<^verbatim>\<open>call_soon\<close>: \<^verbatim>\<open>_check_closed\<close>, then the handle goes to the end of \<^verbatim>\<open>_ready\<close>.\<close>

definition call_soon :: "nat \<Rightarrow> 'v callback \<Rightarrow> 'v world \<Rightarrow> raised option \<times> 'v world" where
  "call_soon l cb w =
     (if closed (loops w ! l) then (Some closed_error, w)
      else (None, upd_loop l (\<lambda>L. L\<lparr>ready := ready L @ [cb]\<rparr>) w))"

text \<open>\<^verbatim>\<open>call_soon_threadsafe\<close> is \<^verbatim>\<open>call_soon\<close> followed by a write to the loop's
  self-pipe, which wakes a loop blocked in its selector and changes nothing else.\<close>

definition call_soon_threadsafe :: "nat \<Rightarrow> 'v callback \<Rightarrow> 'v world \<Rightarrow> raised option \<times> 'v world" where
  "call_soon_threadsafe l cb w = call_soon l cb w"

fun call_soon_all :: "nat \<Rightarrow> 'v callback list \<Rightarrow> 'v world \<Rightarrow> raised option \<times> 'v world" where
  "call_soon_all l [] w = (None, w)"
| "call_soon_all l (cb # cbs) w =
     (case call_soon l cb w of
        (Some e, w') \<Rightarrow> (Some e, w')
      | (None, w') \<Rightarrow> call_soon_all l cbs w')"

definition call_exception_handler :: "nat \<Rightarrow> log_entry \<Rightarrow> 'v world \<Rightarrow> 'v world" where
  "call_exception_handler l entry w = upd_loop l (\<lambda>L. L\<lparr>exc_log := exc_log L @ [entry]\<rparr>) w"

definition new_event_loop :: "'v world \<Rightarrow> nat \<times> 'v world" where
  "new_event_loop w =
     (length (loops w),
      w\<lparr>loops := loops w @ [\<lparr>ready = [], closed = False, stopping = False, exc_log = []\<rparr>]\<rparr>)"

definition set_event_loop :: "nat option \<Rightarrow> 'v world \<Rightarrow> 'v world" where
  "set_event_loop lo w = w\<lparr>current_loop := lo, policy_creates_loop := False\<rparr>"

text \<open>\<^verbatim>\<open>asyncio.get_event_loop()\<close>: the running loop if there is one, else the policy's.\<close>

definition get_event_loop :: "'v world \<Rightarrow> (raised + nat) \<times> 'v world" where
  "get_event_loop w =
     (case running_loop w of
        Some l \<Rightarrow> (Inr l, w)
      | None \<Rightarrow>
          (case current_loop w of
             Some l \<Rightarrow> (Inr l, w)
           | None \<Rightarrow>
               if policy_creates_loop w
               then (let (l, w1) = new_event_loop w in (Inr l, set_event_loop (Some l) w1))
               else (Inl (Exc (RuntimeError ''There is no current event loop'')), w)))"

subsection \<open>Futures\<close>

definition create_future :: "nat \<Rightarrow> 'v world \<Rightarrow> nat \<times> 'v world" where
  "create_future l w =
     (length (futs w),
      w\<lparr>futs := futs w @ [\<lparr>fstate = Pending, floop = l, fcallbacks = [],
                           log_traceback = False, task_coro = None\<rparr>]\<rparr>)"

fun as_handle :: "nat \<Rightarrow> done_cb \<Rightarrow> 'v callback" where
  "as_handle f (Wakeup t) = TaskWakeup t f"
| "as_handle f RunUntilCompleteCb = StopLoop f"

definition schedule_callbacks :: "nat \<Rightarrow> 'v world \<Rightarrow> raised option \<times> 'v world" where
  "schedule_callbacks f w =
     (let cbs = fcallbacks (futs w ! f) in
      if cbs = [] then (None, w)
      else call_soon_all (floop (futs w ! f)) (map (as_handle f) cbs)
             (upd_fut f (\<lambda>F. F\<lparr>fcallbacks := []\<rparr>) w))"

definition future_set_result :: "nat \<Rightarrow> 'v pyval \<Rightarrow> 'v world \<Rightarrow> raised option \<times> 'v world" where
  "future_set_result f v w =
     (if fstate (futs w ! f) \<noteq> Pending then (Some (Exc InvalidStateError), w)
      else schedule_callbacks f (upd_fut f (\<lambda>F. F\<lparr>fstate := Finished v\<rparr>) w))"

definition future_set_exception :: "nat \<Rightarrow> exn \<Rightarrow> 'v world \<Rightarrow> raised option \<times> 'v world" where
  "future_set_exception f e w =
     (if fstate (futs w ! f) \<noteq> Pending then (Some (Exc InvalidStateError), w)
      else (case schedule_callbacks f (upd_fut f (\<lambda>F. F\<lparr>fstate := Faulted e\<rparr>) w) of
              (Some x, w') \<Rightarrow> (Some x, w')
            | (None, w') \<Rightarrow> (None, upd_fut f (\<lambda>F. F\<lparr>log_traceback := True\<rparr>) w')))"

definition future_cancel :: "nat \<Rightarrow> 'v world \<Rightarrow> (raised + bool) \<times> 'v world" where
  "future_cancel f w =
     (let w1 = upd_fut f (\<lambda>F. F\<lparr>log_traceback := False\<rparr>) w in
      if fstate (futs w ! f) \<noteq> Pending then (Inr False, w1)
      else (case schedule_callbacks f (upd_fut f (\<lambda>F. F\<lparr>fstate := Cancelled\<rparr>) w1) of
              (Some x, w') \<Rightarrow> (Inl x, w')
            | (None, w') \<Rightarrow> (Inr True, w')))"

definition future_result :: "nat \<Rightarrow> 'v world \<Rightarrow> (raised + 'v pyval) \<times> 'v world" where
  "future_result f w =
     (case fstate (futs w ! f) of
        Cancelled \<Rightarrow> (Inl CancelledError, w)
      | Pending \<Rightarrow> (Inl (Exc InvalidStateError), w)
      | Finished v \<Rightarrow> (Inr v, upd_fut f (\<lambda>F. F\<lparr>log_traceback := False\<rparr>) w)
      | Faulted e \<Rightarrow> (Inl (Exc e), upd_fut f (\<lambda>F. F\<lparr>log_traceback := False\<rparr>) w))"

definition add_done_callback :: "nat \<Rightarrow> done_cb \<Rightarrow> 'v world \<Rightarrow> raised option \<times> 'v world" where
  "add_done_callback f d w =
     (if fstate (futs w ! f) \<noteq> Pending then call_soon (floop (futs w ! f)) (as_handle f d) w
      else (None, upd_fut f (\<lambda>F. F\<lparr>fcallbacks := fcallbacks F @ [d]\<rparr>) w))"

definition remove_done_callback :: "nat \<Rightarrow> done_cb \<Rightarrow> 'v world \<Rightarrow> 'v world" where
  "remove_done_callback f d w = upd_fut f (\<lambda>F. F\<lparr>fcallbacks := filter (\<lambda>x. x \<noteq> d) (fcallbacks F)\<rparr>) w"

text \<open>\<^verbatim>\<open>Future.__del__\<close>, which the interpreter runs when the last reference to the
  future is dropped.\<close>

definition future_del :: "nat \<Rightarrow> 'v world \<Rightarrow> 'v world" where
  "future_del f w =
     (if \<not> log_traceback (futs w ! f) then w
      else (case fstate (futs w ! f) of
              Faulted e \<Rightarrow> call_exception_handler (floop (futs w ! f)) (NeverRetrieved f e) w
            | _ \<Rightarrow> w))"

subsection \<open>Tasks and the coroutine protocol\<close>

text \<open>\<^verbatim>\<open>loop.create_task(coro)\<close>: \<^verbatim>\<open>_check_closed\<close>, then \<^verbatim>\<open>Task.__init__\<close> schedules the
  first \<^verbatim>\<open>__step\<close> with \<^verbatim>\<open>call_soon\<close>.\<close>

definition create_task :: "nat \<Rightarrow> nat \<Rightarrow> 'v world \<Rightarrow> (raised + nat) \<times> 'v world" where
  "create_task l c w =
     (if closed (loops w ! l) then (Inl closed_error, w)
      else (let t = length (futs w);
                w1 = w\<lparr>futs := futs w @ [\<lparr>fstate = Pending, floop = l, fcallbacks = [],
                                            log_traceback = False, task_coro = Some c\<rparr>]\<rparr>
            in (Inr t, upd_loop l (\<lambda>L. L\<lparr>ready := ready L @ [TaskStep t None]\<rparr>) w1)))"

text \<open>\<^verbatim>\<open>asyncio.ensure_future(x)\<close> with no \<^verbatim>\<open>loop\<close> argument: a future is returned as it
  is, a coroutine is wrapped in a task of \<^verbatim>\<open>get_event_loop()\<close> (and closed when that
  raises \<^verbatim>\<open>RuntimeError\<close>), anything else is a \<^verbatim>\<open>TypeError\<close>.\<close>

definition not_awaitable :: raised where
  "not_awaitable = Exc (TypeError ''An asyncio.Future, a coroutine or an awaitable is required'')"

definition ensure_future :: "aref \<Rightarrow> 'v world \<Rightarrow> (raised + nat) \<times> 'v world" where
  "ensure_future x w =
     (case x of
        FutRef f \<Rightarrow> if f < length (futs w) then (Inr f, w) else (Inl not_awaitable, w)
      | CoroRef c \<Rightarrow>
          if c < length (coros w)
          then (case get_event_loop w of
                  (Inl e, w1) \<Rightarrow> (Inl e, w1)
                | (Inr l, w1) \<Rightarrow>
                    (case create_task l c w1 of
                       (Inl e, w2) \<Rightarrow> (Inl e, set_status c Closed w2)
                     | (Inr t, w2) \<Rightarrow> (Inr t, w2)))
          else (Inl not_awaitable, w))"

text \<open>What driving a coroutine gives its driver: \<^verbatim>\<open>StopIteration(v)\<close>, an exception, or
  the pending future the coroutine is blocked on.\<close>

datatype 'v outcome = Returned "'v pyval" | Raised raised | Yielded nat

text \<open>
  \<^verbatim>\<open>Future.__await__\<close>.  Entered (\<open>fresh\<close>), a pending future yields itself and a done
  one gives \<^verbatim>\<open>result()\<close>.  Resumed after the yield, an exception thrown in is raised
  there; otherwise a future that is still pending is a \<^verbatim>\<open>RuntimeError\<close> and a done one
  gives \<^verbatim>\<open>result()\<close>.
\<close>

definition await_future :: "bool \<Rightarrow> raised option \<Rightarrow> nat \<Rightarrow> 'v world \<Rightarrow> 'v outcome \<times> 'v world" where
  "await_future fresh exc f w =
     (if \<not> f < length (futs w)
      then (Raised (Exc (TypeError ''object can not be used in await expression'')), w)
      else if fresh \<and> fstate (futs w ! f) = Pending then (Yielded f, w)
      else (case exc of
              Some e \<Rightarrow> (Raised e, w)
            | None \<Rightarrow>
                if fstate (futs w ! f) = Pending
                then (Raised (Exc (RuntimeError ''await was not used with future'')), w)
                else (case future_result f w of
                        (Inl e, w') \<Rightarrow> (Raised e, w')
                      | (Inr v, w') \<Rightarrow> (Returned v, w'))))"

text \<open>A coroutine that yields stays suspended at its \<^verbatim>\<open>await\<close>; one that returns or
  raises is finished for good.\<close>

definition finish :: "nat \<Rightarrow> 'v outcome \<times> 'v world \<Rightarrow> 'v outcome \<times> 'v world" where
  "finish c rw =
     (case fst rw of
        Yielded f \<Rightarrow> (Yielded f, set_status c Suspended (snd rw))
      | r \<Rightarrow> (r, set_status c Closed (snd rw)))"

definition reuse_error :: raised where
  "reuse_error = Exc (RuntimeError ''cannot reuse already awaited coroutine'')"

definition awaited_already :: raised where
  "awaited_already = Exc (RuntimeError ''coroutine is being awaited already'')"

text \<open>
  \<open>drive None c\<close> is \<^verbatim>\<open>c.send(None)\<close> and \<open>drive (Some e) c\<close> is \<^verbatim>\<open>c.throw(e)\<close>.
  A new coroutine runs its body; evaluating \<^verbatim>\<open>await d\<close> there refuses a coroutine
  \<open>d\<close> that is suspended in an \<^verbatim>\<open>await\<close> of its own.  A suspended coroutine passes
  the call on to what it awaits.  A finished coroutine cannot be used again, and a
  running one cannot be entered.  A suspended coroutine always has a body of the form
  \<open>ReturnAwait x\<close>: the last case is there for totality alone.
\<close>

function drive :: "raised option \<Rightarrow> nat \<Rightarrow> 'v world \<Rightarrow> 'v outcome \<times> 'v world" where
  "drive exc c w =
     (if \<not> c < length (coros w) then (Raised (Exc (TypeError ''a coroutine was expected'')), w)
      else (case cstatus (coros w ! c) of
        Running \<Rightarrow> (Raised (Exc (ValueError ''coroutine already executing'')), w)
      | Closed \<Rightarrow> (Raised reuse_error, w)
      | Created \<Rightarrow>
          (case exc of
             Some e \<Rightarrow> (Raised e, set_status c Closed w)
           | None \<Rightarrow>
               (case cbody (coros w ! c) of
                  Return v \<Rightarrow> (Returned v, set_status c Closed w)
                | RaiseB e \<Rightarrow> (Raised e, set_status c Closed w)
                | ReturnAwait x \<Rightarrow>
                    (case x of
                       FutRef f \<Rightarrow> finish c (await_future True None f w)
                     | CoroRef d \<Rightarrow>
                         if \<not> d < length (coros w)
                         then (Raised (Exc (TypeError ''object can not be used in await expression'')),
                               set_status c Closed w)
                         else if cstatus (coros w ! d) = Suspended
                         then (Raised awaited_already, set_status c Closed w)
                         else finish c (drive None d (set_status c Running w)))
                | ReturnAwaitEnsure x \<Rightarrow>
                    (case ensure_future x w of
                       (Inl e, w1) \<Rightarrow> (Raised e, set_status c Closed w1)
                     | (Inr f, w1) \<Rightarrow>
                         finish c (await_future True None f
                           (upd_coro c (\<lambda>C. C\<lparr>cbody := ReturnAwait (FutRef f)\<rparr>) w1)))))
      | Suspended \<Rightarrow>
          (case cbody (coros w ! c) of
             ReturnAwait x \<Rightarrow>
               (case x of
                  FutRef f \<Rightarrow> finish c (await_future False exc f w)
                | CoroRef d \<Rightarrow> finish c (drive exc d (set_status c Running w)))
           | _ \<Rightarrow> (Raised reuse_error, set_status c Closed w))))"
  by pat_completeness auto

text \<open>Every nested call enters a coroutine that was not running and is now: the number
  of coroutines that are not running goes down.\<close>

termination drive
proof -
  have less: "length (filter P (xs[i := y])) < length (filter P xs)"
    if "i < length xs" and "P (xs ! i)" and "\<not> P y"
    for P :: "'a coroutine \<Rightarrow> bool" and xs i y
    using that
  proof (induction xs arbitrary: i)
    case Nil
    then show ?case by simp
  next
    case (Cons x xs)
    show ?case
    proof (cases i)
      case 0
      with Cons.prems show ?thesis by (simp add: less_Suc_eq_le)
    next
      case (Suc j)
      with Cons show ?thesis by simp
    qed
  qed
  show ?thesis
    apply (relation "measure (\<lambda>(exc, c, w). length (filter (\<lambda>C. cstatus C \<noteq> Running) (coros w)))")
    apply (auto simp: set_status_def upd_coro_def intro!: less)
    done
qed

declare drive.simps [simp del]

text \<open>
  \<^verbatim>\<open>Task.__step\<close>: drive the coroutine once.  A return value, an exception or a
  cancellation ends the task; a yielded future gets \<^verbatim>\<open>__wakeup\<close> as a done callback,
  unless it belongs to another loop or is the task itself.
\<close>

definition task_step :: "nat \<Rightarrow> raised option \<Rightarrow> 'v world \<Rightarrow> raised option \<times> 'v world" where
  "task_step t exc w =
     (if fstate (futs w ! t) \<noteq> Pending then (Some (Exc InvalidStateError), w)
      else (case task_coro (futs w ! t) of
        None \<Rightarrow> (Some (Exc (TypeError ''a coroutine was expected'')), w)
      | Some c \<Rightarrow>
          (case drive exc c w of
             (Returned v, w1) \<Rightarrow> future_set_result t v w1
           | (Raised CancelledError, w1) \<Rightarrow>
               (case future_cancel t w1 of
                  (Inl e, w2) \<Rightarrow> (Some e, w2)
                | (Inr b, w2) \<Rightarrow> (None, w2))
           | (Raised (Exc e), w1) \<Rightarrow> future_set_exception t e w1
           | (Yielded f, w1) \<Rightarrow>
               if floop (futs w1 ! f) \<noteq> floop (futs w1 ! t)
               then call_soon (floop (futs w1 ! t))
                      (TaskStep t (Some (Exc (RuntimeError ''Task got Future attached to a different loop'')))) w1
               else if f = t
               then call_soon (floop (futs w1 ! t))
                      (TaskStep t (Some (Exc (RuntimeError ''Task cannot await on itself'')))) w1
               else add_done_callback f (Wakeup t) w1)))"

text \<open>\<^verbatim>\<open>Task.__wakeup(future)\<close>: \<^verbatim>\<open>future.result()\<close>, and what it raises is thrown into
  the coroutine.\<close>

definition task_wakeup :: "nat \<Rightarrow> nat \<Rightarrow> 'v world \<Rightarrow> raised option \<times> 'v world" where
  "task_wakeup t f w =
     (case future_result f w of
        (Inl e, w1) \<Rightarrow> task_step t (Some e) w1
      | (Inr v, w1) \<Rightarrow> task_step t None w1)"

text \<open>\<^verbatim>\<open>_run_until_complete_cb(fut)\<close>: \<^verbatim>\<open>fut.exception()\<close> unless cancelled, then
  \<^verbatim>\<open>loop.stop()\<close>.\<close>

definition run_until_complete_cb :: "nat \<Rightarrow> 'v world \<Rightarrow> raised option \<times> 'v world" where
  "run_until_complete_cb f w =
     (let stop = upd_loop (floop (futs w ! f)) (\<lambda>L. L\<lparr>stopping := True\<rparr>) in
      case fstate (futs w ! f) of
        Cancelled \<Rightarrow> (None, stop w)
      | Pending \<Rightarrow> (Some (Exc InvalidStateError), w)
      | _ \<Rightarrow> (None, stop (upd_fut f (\<lambda>F. F\<lparr>log_traceback := False\<rparr>) w)))"

subsection \<open>Running the loop\<close>

definition run_callback :: "'v callback \<Rightarrow> 'v world \<Rightarrow> raised option \<times> 'v world" where
  "run_callback cb w =
     (case cb of
        SetResultAction f v \<Rightarrow> future_set_result f v w
      | CancelAction f \<Rightarrow>
          (case future_cancel f w of
             (Inl e, w') \<Rightarrow> (Some e, w')
           | (Inr b, w') \<Rightarrow> (None, w'))
      | SetExceptionAction f e \<Rightarrow> future_set_exception f e w
      | TaskStep t exc \<Rightarrow> task_step t exc w
      | TaskWakeup t f \<Rightarrow> task_wakeup t f w
      | StopLoop f \<Rightarrow> run_until_complete_cb f w)"

text \<open>\<^verbatim>\<open>Handle._run\<close>: what the callback raises goes to the exception handler of the
  loop, and the loop goes on.\<close>

definition handle_run :: "nat \<Rightarrow> 'v callback \<Rightarrow> 'v world \<Rightarrow> 'v world" where
  "handle_run l cb w =
     (case run_callback cb w of
        (None, w') \<Rightarrow> w'
      | (Some e, w') \<Rightarrow> call_exception_handler l (CallbackException e) w')"

text \<open>\<^verbatim>\<open>_run_once\<close> runs the handles that are ready when it starts, in their order;
  handles they add wait for the next round.\<close>

fun run_ready :: "nat \<Rightarrow> nat \<Rightarrow> 'v world \<Rightarrow> 'v world" where
  "run_ready 0 l w = w"
| "run_ready (Suc n) l w =
     (case ready (loops w ! l) of
        [] \<Rightarrow> w
      | cb # rest \<Rightarrow> run_ready n l (handle_run l cb (upd_loop l (\<lambda>L. L\<lparr>ready := rest\<rparr>) w)))"

definition run_once :: "nat \<Rightarrow> 'v world \<Rightarrow> 'v world" where
  "run_once l w = run_ready (length (ready (loops w ! l))) l w"

text \<open>The \<^verbatim>\<open>while True\<close> of \<^verbatim>\<open>run_forever\<close>, with fuel: \<open>None\<close> is a loop that has not
  stopped within \<open>n\<close> rounds.  A loop with nothing ready and nobody to stop it waits in
  its selector for ever: it is \<open>None\<close> for every \<open>n\<close>.\<close>

fun run_rounds :: "nat \<Rightarrow> nat \<Rightarrow> 'v world \<Rightarrow> 'v world option" where
  "run_rounds 0 l w = None"
| "run_rounds (Suc n) l w =
     (let w1 = run_once l w in
      if stopping (loops w1 ! l) then Some w1 else run_rounds n l w1)"

text \<open>\<^verbatim>\<open>_check_running\<close>, for a thread that has a running loop.\<close>

definition running_error :: "nat \<Rightarrow> 'v world \<Rightarrow> raised" where
  "running_error l w =
     (if running_loop w = Some l then Exc (RuntimeError ''This event loop is already running'')
      else Exc (RuntimeError ''Cannot run the event loop while another loop is running''))"

definition run_forever :: "nat \<Rightarrow> nat \<Rightarrow> 'v world \<Rightarrow> (raised option \<times> 'v world) option" where
  "run_forever n l w =
     (if closed (loops w ! l) then Some (Some closed_error, w)
      else if running_loop w \<noteq> None then Some (Some (running_error l w), w)
      else (case run_rounds n l (w\<lparr>running_loop := Some l\<rparr>) of
              None \<Rightarrow> None
            | Some w1 \<Rightarrow>
                Some (None, (upd_loop l (\<lambda>L. L\<lparr>stopping := False\<rparr>) w1)\<lparr>running_loop := None\<rparr>)))"

text \<open>\<^verbatim>\<open>loop.run_until_complete(task)\<close> for a task of the loop.\<close>

definition run_until_complete ::
  "nat \<Rightarrow> nat \<Rightarrow> nat \<Rightarrow> 'v world \<Rightarrow> ((raised + 'v pyval) \<times> 'v world) option" where
  "run_until_complete n l t w =
     (if closed (loops w ! l) then Some (Inl closed_error, w)
      else if running_loop w \<noteq> None then Some (Inl (running_error l w), w)
      else (case add_done_callback t RunUntilCompleteCb w of
              (Some e, w1) \<Rightarrow> Some (Inl e, w1)
            | (None, w1) \<Rightarrow>
                (case run_forever n l w1 of
                   None \<Rightarrow> None
                 | Some (Some e, w2) \<Rightarrow> Some (Inl e, remove_done_callback t RunUntilCompleteCb w2)
                 | Some (None, w2) \<Rightarrow>
                     (let w3 = remove_done_callback t RunUntilCompleteCb w2 in
                      if fstate (futs w3 ! t) = Pending
                      then Some (Inl (Exc (RuntimeError ''Event loop stopped before Future completed.'')), w3)
                      else Some (future_result t w3)))))"

text \<open>
  The end of \<^verbatim>\<open>asyncio.run\<close> (\<^verbatim>\<open>Runner.close\<close>): the tasks of the loop that are still
  pending are cancelled, \<^verbatim>\<open>set_event_loop(None)\<close>, and the loop is closed.  The
  cancellation is recorded by its effect on the tasks alone; the rounds the loop runs
  for it are not followed.
\<close>

definition runner_close :: "nat \<Rightarrow> 'v world \<Rightarrow> 'v world" where
  "runner_close l w =
     upd_loop l (\<lambda>L. L\<lparr>ready := [], closed := True\<rparr>)
       (set_event_loop None
          (w\<lparr>futs := map (\<lambda>F. if floop F = l \<and> fstate F = Pending \<and> task_coro F \<noteq> None
                                then F\<lparr>fstate := Cancelled\<rparr> else F) (futs w)\<rparr>))"

text \<open>
  \<^verbatim>\<open>asyncio.run(main)\<close>: refused inside a running loop; \<open>main\<close> must be a coroutine;
  then a new loop is made the current one, runs the task of \<open>main\<close> until it is done,
  and is closed.
\<close>

definition nested_run_error :: raised where
  "nested_run_error = Exc (RuntimeError ''asyncio.run() cannot be called from a running event loop'')"

definition asyncio_run :: "nat \<Rightarrow> aref \<Rightarrow> 'v world \<Rightarrow> ((raised + 'v pyval) \<times> 'v world) option" where
  "asyncio_run n main w =
     (if running_loop w \<noteq> None then Some (Inl nested_run_error, w)
      else (case main of
        FutRef f \<Rightarrow> Some (Inl (Exc (ValueError ''a coroutine was expected'')), w)
      | CoroRef c \<Rightarrow>
          (let (l, w1) = new_event_loop w;
               w2 = set_event_loop (Some l) w1
           in case create_task l c w2 of
                (Inl e, w3) \<Rightarrow> Some (Inl e, runner_close l w3)
              | (Inr t, w3) \<Rightarrow>
                  (case run_until_complete n l t w3 of
                     None \<Rightarrow> None
                   | Some (r, w4) \<Rightarrow> Some (r, runner_close l w4)))))"

section \<open>The module\<close>

subsection \<open>\<^verbatim>\<open>TaskCompletionSource\<close>\<close>

text \<open>\<^verbatim>\<open>__slots__ = "future", "loop"\<close>.\<close>

record TaskCompletionSource =
  future :: nat
  loop :: nat

text \<open>
  \<^verbatim>\<open>
  def __init__(self) -> None:
      self.loop: AbstractEventLoop = asyncio.get_event_loop()
      self.future: Future[_T] = self.loop.create_future()
  \<close>
\<close>

definition TaskCompletionSource_init :: "'v world \<Rightarrow> (raised + TaskCompletionSource) \<times> 'v world" where
  "TaskCompletionSource_init w =
     (case get_event_loop w of
        (Inl e, w1) \<Rightarrow> (Inl e, w1)
      | (Inr l, w1) \<Rightarrow>
          (let (f, w2) = create_future l w1 in (Inr \<lparr>future = f, loop = l\<rparr>, w2)))"

text \<open>
  \<^verbatim>\<open>
  def SetResult(self, value: _T) -> None:
      def action():
          self.future.set_result(value)
      self.loop.call_soon_threadsafe(action)
  \<close>
  and the same for \<^verbatim>\<open>SetCancelled\<close> (\<^verbatim>\<open>self.future.cancel()\<close>) and \<^verbatim>\<open>SetException\<close>
  (\<^verbatim>\<open>self.future.set_exception(exception)\<close>).  The result is what the caller sees:
  \<open>Inr ()\<close> is the \<^verbatim>\<open>None\<close> the method returns.
\<close>

definition hand_off :: "raised option \<times> 'v world \<Rightarrow> (raised + unit) \<times> 'v world" where
  "hand_off r = (case r of (Some e, w') \<Rightarrow> (Inl e, w') | (None, w') \<Rightarrow> (Inr (), w'))"

definition SetResult :: "TaskCompletionSource \<Rightarrow> 'v pyval \<Rightarrow> 'v world \<Rightarrow> (raised + unit) \<times> 'v world" where
  "SetResult self v w = hand_off (call_soon_threadsafe (loop self) (SetResultAction (future self) v) w)"

definition SetCancelled :: "TaskCompletionSource \<Rightarrow> 'v world \<Rightarrow> (raised + unit) \<times> 'v world" where
  "SetCancelled self w = hand_off (call_soon_threadsafe (loop self) (CancelAction (future self)) w)"

definition SetException :: "TaskCompletionSource \<Rightarrow> exn \<Rightarrow> 'v world \<Rightarrow> (raised + unit) \<times> 'v world" where
  "SetException self e w = hand_off (call_soon_threadsafe (loop self) (SetExceptionAction (future self) e) w)"

text \<open>\<^verbatim>\<open>def get_task(self): return asyncio.ensure_future(self.future)\<close>\<close>

definition get_task :: "TaskCompletionSource \<Rightarrow> 'v world \<Rightarrow> (raised + aref) \<times> 'v world" where
  "get_task self w =
     (case ensure_future (FutRef (future self)) w of
        (Inl e, w') \<Rightarrow> (Inl e, w')
      | (Inr f, w') \<Rightarrow> (Inr (FutRef f), w'))"

subsection \<open>The coroutine functions\<close>

text \<open>\<^verbatim>\<open>async def zero() -> None: return\<close>\<close>

definition zero_task :: "'v world \<Rightarrow> aref \<times> 'v world" where
  "zero_task w = (let (c, w') = new_coro (Return PyNone) w in (CoroRef c, w'))"

text \<open>\<^verbatim>\<open>async def from_result(value: _T) -> _T: return value\<close>\<close>

definition from_result :: "'v pyval \<Rightarrow> 'v world \<Rightarrow> aref \<times> 'v world" where
  "from_result v w = (let (c, w') = new_coro (Return v) w in (CoroRef c, w'))"

text \<open>
  \<^verbatim>\<open>
  def get_awaiter(value):
      async def get_value():
          return await asyncio.ensure_future(value)
      return get_value()
  \<close>
\<close>

definition get_awaiter :: "aref \<Rightarrow> 'v world \<Rightarrow> aref \<times> 'v world" where
  "get_awaiter x w = (let (c, w') = new_coro (ReturnAwaitEnsure x) w in (CoroRef c, w'))"

subsection \<open>The bridges\<close>

text \<open>
  \<^verbatim>\<open>
  def get_result(value):
      async def runner():
          return await value
      return asyncio.run(runner())
  \<close>
  The argument \<^verbatim>\<open>runner()\<close> is evaluated before \<^verbatim>\<open>asyncio.run\<close> is entered.
\<close>

definition get_result :: "nat \<Rightarrow> aref \<Rightarrow> 'v world \<Rightarrow> ((raised + 'v pyval) \<times> 'v world) option" where
  "get_result n x w = (let (r, w1) = new_coro (ReturnAwait x) w in asyncio_run n (CoroRef r) w1)"

text \<open>\<^verbatim>\<open>run_synchronously\<close> is \<^verbatim>\<open>get_result\<close> without the \<^verbatim>\<open>return\<close>.\<close>

definition run_synchronously :: "nat \<Rightarrow> aref \<Rightarrow> 'v world \<Rightarrow> ((raised + unit) \<times> 'v world) option" where
  "run_synchronously n x w =
     (let (r, w1) = new_coro (ReturnAwait x) w in
      case asyncio_run n (CoroRef r) w1 of
        None \<Rightarrow> None
      | Some (Inl e, w2) \<Rightarrow> Some (Inl e, w2)
      | Some (Inr v, w2) \<Rightarrow> Some (Inr (), w2))"

text \<open>
  \<^verbatim>\<open>
  def start(task):
      async def runner():
          return await task
      asyncio.create_task(runner())
  \<close>
  \<^verbatim>\<open>asyncio.create_task\<close> is \<^verbatim>\<open>get_running_loop().create_task\<close>; the task it returns is
  dropped.
\<close>

definition start :: "aref \<Rightarrow> 'v world \<Rightarrow> (raised + unit) \<times> 'v world" where
  "start x w =
     (let (r, w1) = new_coro (ReturnAwait x) w in
      case running_loop w1 of
        None \<Rightarrow> (Inl (Exc (RuntimeError ''no running event loop'')), w1)
      | Some l \<Rightarrow>
          (case create_task l r w1 of
             (Inl e, w2) \<Rightarrow> (Inl e, w2)
           | (Inr t, w2) \<Rightarrow> (Inr (), w2)))"

section \<open>Properties\<close>

subsection \<open>Terminal states\<close>

text \<open>A store of futures \<open>fs'\<close> keeps what is done in \<open>fs\<close>: no future is lost, and
  every future that is done in \<open>fs\<close> has the same state in \<open>fs'\<close>.\<close>

definition keeps_done :: "'v py_future list \<Rightarrow> 'v py_future list \<Rightarrow> bool" where
  "keeps_done fs fs' =
     (length fs \<le> length fs' \<and>
      (\<forall>g < length fs. fstate (fs ! g) \<noteq> Pending \<longrightarrow> fstate (fs' ! g) = fstate (fs ! g)))"

text \<open>A store of loops \<open>ls'\<close> extends the queues of \<open>ls\<close>: no loop is lost, and the
  ready queue of every loop of \<open>ls\<close> is in \<open>ls'\<close> what it was, with handles added at its end.\<close>

definition queue_grows :: "'v event_loop list \<Rightarrow> 'v event_loop list \<Rightarrow> bool" where
  "queue_grows ls ls' =
     (length ls \<le> length ls' \<and>
      (\<forall>l < length ls. \<exists>added. ready (ls' ! l) = ready (ls ! l) @ added))"

subsection \<open>Observers\<close>

text \<open>An observer of an awaitable \<open>x\<close>: a new coroutine \<^verbatim>\<open>return await x\<close>, as the
  \<^verbatim>\<open>runner\<close> closures of the module are, driven once.\<close>

definition await_handle :: "aref \<Rightarrow> 'v world \<Rightarrow> 'v outcome \<times> 'v world" where
  "await_handle x w = (let (c, w1) = new_coro (ReturnAwait x) w in drive None c w1)"

text \<open>
  Two observers that await before the completion.  \<^verbatim>\<open>get_task\<close> is called twice, and each
  handle is given to \<^verbatim>\<open>start\<close>, whose \<^verbatim>\<open>runner\<close> task awaits it.  Then: a round of the
  loop, in which both tasks block on the future; the terminal-transition call; a round in
  which the loop applies it; a round in which the tasks wake up.
\<close>

definition two_observers :: "TaskCompletionSource \<Rightarrow>
    (TaskCompletionSource \<Rightarrow> 'v world \<Rightarrow> (raised + unit) \<times> 'v world) \<Rightarrow> 'v world \<Rightarrow> 'v world" where
  "two_observers self transition w =
     (case get_task self w of
        (Inl e, wa) \<Rightarrow> wa
      | (Inr h1, wa) \<Rightarrow>
          (case get_task self wa of
             (Inl e, wb) \<Rightarrow> wb
           | (Inr h2, wb) \<Rightarrow>
               (let w1 = snd (start h1 wb);
                    w2 = snd (start h2 w1);
                    w3 = run_once (loop self) w2;
                    w4 = snd (transition self w3);
                    w5 = run_once (loop self) w4
                in run_once (loop self) w5)))"

subsection \<open>Worlds for the concrete instances\<close>

text \<open>A thread inside \<^verbatim>\<open>asyncio.run\<close>: loop 0 is running, and a coroutine made by
  \<^verbatim>\<open>from_result(1)\<close> is at hand.\<close>

definition loop_world :: "nat world" where
  "loop_world =
     \<lparr>coros = [\<lparr>cbody = Return (PyVal 1), cstatus = Created\<rparr>], futs = [],
      loops = [\<lparr>ready = [], closed = False, stopping = False, exc_log = []\<rparr>],
      running_loop = Some 0, current_loop = Some 0, policy_creates_loop = False\<rparr>"

text \<open>A completion source on loop 0, with future 0.\<close>

definition source0 :: TaskCompletionSource where
  "source0 = \<lparr>future = 0, loop = 0\<rparr>"

text \<open>Loop 0 is running with nothing in its queue; future 0 is pending and nobody waits
  for it.\<close>

definition pending_world :: "nat world" where
  "pending_world =
     \<lparr>coros = [],
      futs = [\<lparr>fstate = Pending, floop = 0, fcallbacks = [], log_traceback = False, task_coro = None\<rparr>],
      loops = [\<lparr>ready = [], closed = False, stopping = False, exc_log = []\<rparr>],
      running_loop = Some 0, current_loop = Some 0, policy_creates_loop = False\<rparr>"

text \<open>Loop 0 has been closed, as after \<^verbatim>\<open>asyncio.run\<close>; its future 0 never completed.\<close>

definition closed_world :: "nat world" where
  "closed_world =
     \<lparr>coros = [],
      futs = [\<lparr>fstate = Pending, floop = 0, fcallbacks = [], log_traceback = False, task_coro = None\<rparr>],
      loops = [\<lparr>ready = [], closed = True, stopping = False, exc_log = []\<rparr>],
      running_loop = None, current_loop = None, policy_creates_loop = False\<rparr>"

text \<open>The main thread of a new interpreter (CPython up to 3.13): no loop yet.\<close>

definition fresh_world :: "nat world" where
  "fresh_world =
     \<lparr>coros = [], futs = [], loops = [],
      running_loop = None, current_loop = None, policy_creates_loop = True\<rparr>"

text \<open>\<^verbatim>\<open>SetResult(1)\<close> has been called in \<open>pending_world\<close> and the loop has run a round.\<close>

definition after_first :: "nat world" where
  "after_first = run_once 0 (snd (SetResult source0 (PyVal 1) pending_world))"

text \<open>Loop 0 is running, and a coroutine that raises is at hand.\<close>

definition raising_world :: "nat world" where
  "raising_world =
     \<lparr>coros = [\<lparr>cbody = RaiseB (Exc (UserError ''boom'')), cstatus = Created\<rparr>], futs = [],
      loops = [\<lparr>ready = [], closed = False, stopping = False, exc_log = []\<rparr>],
      running_loop = Some 0, current_loop = Some 0, policy_creates_loop = False\<rparr>"

subsection \<open>Auxiliary facts\<close>

lemma keeps_done_refl [simp]: "keeps_done fs fs"
  by (simp add: keeps_done_def)

lemma keeps_done_trans: "keeps_done a b \<Longrightarrow> keeps_done b c \<Longrightarrow> keeps_done a c"
  by (auto simp: keeps_done_def)

lemma keeps_done_update:
  assumes "f < length fs \<Longrightarrow> fstate (fs ! f) \<noteq> Pending \<Longrightarrow> fstate y = fstate (fs ! f)"
  shows "keeps_done fs (fs[f := y])"
  unfolding keeps_done_def
proof (intro conjI allI impI)
  show "length fs \<le> length (fs[f := y])" by simp
next
  fix g
  assume g: "g < length fs" and d: "fstate (fs ! g) \<noteq> Pending"
  show "fstate (fs[f := y] ! g) = fstate (fs ! g)"
  proof (cases "f = g")
    case True
    with g d assms show ?thesis by simp
  next
    case False
    then show ?thesis by simp
  qed
qed

lemma keeps_done_update_pending:
  "fstate (fs ! f) = Pending \<Longrightarrow> keeps_done fs (fs[f := y])"
  by (rule keeps_done_update) simp

lemma keeps_done_update_twice:
  assumes "fstate a = Pending"
  shows "keeps_done (fs[f := a]) (fs[f := b])"
proof (cases "f < length fs")
  case True
  with assms have "keeps_done (fs[f := a]) ((fs[f := a])[f := b])"
    by (intro keeps_done_update_pending) simp
  then show ?thesis by simp
next
  case False
  then show ?thesis by (simp add: list_update_beyond)
qed

lemma keeps_done_update_same:
  "fstate y = fstate (fs ! f) \<Longrightarrow> keeps_done fs (fs[f := y])"
  by (rule keeps_done_update) simp

lemma keeps_done_append [simp]: "keeps_done fs (fs @ ys)"
  by (simp add: keeps_done_def nth_append)

lemma futs_upd_loop [simp]: "futs (upd_loop l g w) = futs w"
  by (simp add: upd_loop_def)

lemma futs_upd_coro [simp]: "futs (upd_coro c g w) = futs w"
  by (simp add: upd_coro_def)

lemma futs_set_status [simp]: "futs (set_status c s w) = futs w"
  by (simp add: set_status_def)

lemma futs_upd_fut [simp]: "futs (upd_fut f g w) = (futs w)[f := g (futs w ! f)]"
  by (simp add: upd_fut_def)

lemma futs_call_soon [simp]: "futs (snd (call_soon l cb w)) = futs w"
  by (simp add: call_soon_def)

lemma futs_call_soon_all [simp]: "futs (snd (call_soon_all l cbs w)) = futs w"
proof (induction cbs arbitrary: w)
  case Nil
  show ?case by simp
next
  case (Cons cb cbs)
  show ?case
  proof (cases "call_soon l cb w")
    case (Pair r w')
    then have "futs w' = futs w" using futs_call_soon [of l cb w] by simp
    with Pair Cons.IH [of w'] show ?thesis by (cases r) simp_all
  qed
qed

lemma futs_call_exception_handler [simp]: "futs (call_exception_handler l x w) = futs w"
  by (simp add: call_exception_handler_def)

lemma keeps_done_schedule_callbacks: "keeps_done (futs w) (futs (snd (schedule_callbacks f w)))"
  by (simp add: schedule_callbacks_def Let_def keeps_done_update_same)

lemma keeps_done_set_result: "keeps_done (futs w) (futs (snd (future_set_result f v w)))"
proof (cases "fstate (futs w ! f) = Pending")
  case True
  have "keeps_done (futs w) (futs (upd_fut f (\<lambda>F. F\<lparr>fstate := Finished v\<rparr>) w))"
    using True by (simp add: keeps_done_update_pending)
  then show ?thesis
    using True keeps_done_schedule_callbacks keeps_done_trans
    by (fastforce simp: future_set_result_def)
next
  case False
  then show ?thesis by (simp add: future_set_result_def)
qed

lemma keeps_done_set_exception: "keeps_done (futs w) (futs (snd (future_set_exception f e w)))"
proof (cases "fstate (futs w ! f) = Pending")
  case True
  let ?w1 = "upd_fut f (\<lambda>F. F\<lparr>fstate := Faulted e\<rparr>) w"
  have a: "keeps_done (futs w) (futs ?w1)"
    using True by (simp add: keeps_done_update_pending)
  have b: "keeps_done (futs ?w1) (futs (snd (schedule_callbacks f ?w1)))"
    by (rule keeps_done_schedule_callbacks)
  show ?thesis
  proof (cases "schedule_callbacks f ?w1")
    case (Pair r w2)
    with a b have c: "keeps_done (futs w) (futs w2)" by (auto intro: keeps_done_trans)
    have "keeps_done (futs w2) (futs (upd_fut f (\<lambda>F. F\<lparr>log_traceback := True\<rparr>) w2))"
      by (simp add: keeps_done_update_same)
    with c have "keeps_done (futs w) (futs (upd_fut f (\<lambda>F. F\<lparr>log_traceback := True\<rparr>) w2))"
      by (rule keeps_done_trans)
    with c Pair True show ?thesis by (cases r) (simp_all add: future_set_exception_def)
  qed
next
  case False
  then show ?thesis by (simp add: future_set_exception_def)
qed

lemma keeps_done_cancel: "keeps_done (futs w) (futs (snd (future_cancel f w)))"
proof -
  let ?w1 = "upd_fut f (\<lambda>F. F\<lparr>log_traceback := False\<rparr>) w"
  have a: "keeps_done (futs w) (futs ?w1)" by (simp add: keeps_done_update_same)
  show ?thesis
  proof (cases "fstate (futs w ! f) = Pending")
    case True
    let ?w2 = "upd_fut f (\<lambda>F. F\<lparr>fstate := Cancelled\<rparr>) ?w1"
    have "keeps_done (futs ?w1) (futs ?w2)"
      using True by (simp add: keeps_done_update_twice)
    with a have b: "keeps_done (futs w) (futs ?w2)" by (rule keeps_done_trans)
    have "keeps_done (futs ?w2) (futs (snd (schedule_callbacks f ?w2)))"
      by (rule keeps_done_schedule_callbacks)
    with b have "keeps_done (futs w) (futs (snd (schedule_callbacks f ?w2)))" by (rule keeps_done_trans)
    then show ?thesis using True
      by (cases "schedule_callbacks f ?w2"; cases "fst (schedule_callbacks f ?w2)") (simp_all add: future_cancel_def Let_def)
  next
    case False
    with a show ?thesis by (simp add: future_cancel_def Let_def)
  qed
qed

lemma keeps_done_result: "keeps_done (futs w) (futs (snd (future_result f w)))"
  by (cases "fstate (futs w ! f)") (simp_all add: future_result_def keeps_done_update_same)

lemma keeps_done_add_done_callback: "keeps_done (futs w) (futs (snd (add_done_callback f d w)))"
  by (simp add: add_done_callback_def keeps_done_update_same)

lemma keeps_done_create_task: "keeps_done (futs w) (futs (snd (create_task l c w)))"
  by (simp add: create_task_def Let_def)

lemma futs_get_event_loop [simp]: "futs (snd (get_event_loop w)) = futs w"
  by (simp add: get_event_loop_def new_event_loop_def set_event_loop_def split: option.splits)

lemma keeps_done_ensure_future: "keeps_done (futs w) (futs (snd (ensure_future x w)))"
proof (cases x)
  case (FutRef f)
  then show ?thesis by (simp add: ensure_future_def)
next
  case (CoroRef c)
  show ?thesis
  proof (cases "get_event_loop w")
    case (Pair r w1)
    then have e: "futs w1 = futs w" using futs_get_event_loop [of w] by simp
    show ?thesis
    proof (cases r)
      case (Inl a)
      with Pair CoroRef e show ?thesis by (simp add: ensure_future_def)
    next
      case (Inr l)
      have "keeps_done (futs w1) (futs (snd (create_task l c w1)))"
        by (rule keeps_done_create_task)
      with Pair CoroRef e Inr show ?thesis
        by (cases "create_task l c w1"; cases "fst (create_task l c w1)")
           (simp_all add: ensure_future_def)
    qed
  qed
qed

lemma keeps_done_await_future: "keeps_done (futs w) (futs (snd (await_future fresh exc f w)))"
  using keeps_done_result [of w f]
  by (cases "future_result f w"; cases "fst (future_result f w)")
     (simp_all add: await_future_def split: option.splits)

lemma futs_finish [simp]: "futs (snd (finish c rw)) = futs (snd rw)"
  by (cases "fst rw") (simp_all add: finish_def)

lemma keeps_done_drive: "keeps_done (futs w) (futs (snd (drive exc c w)))"
proof (induction exc c w rule: drive.induct)
  case (1 exc c w)
  show ?case
  proof (cases "c < length (coros w)")
    case False
    then show ?thesis by (subst drive.simps) (simp)
  next
    case valid: True
    show ?thesis
    proof (cases "cstatus (coros w ! c)")
      case Running
      with valid show ?thesis by (subst drive.simps) (simp)
    next
      case Closed
      with valid show ?thesis by (subst drive.simps) (simp)
    next
      case Created
      show ?thesis
      proof (cases exc)
        case (Some e)
        with valid Created show ?thesis by (subst drive.simps) (simp)
      next
        case None
        show ?thesis
        proof (cases "cbody (coros w ! c)")
          case (Return v)
          with valid Created None show ?thesis by (subst drive.simps) (simp)
        next
          case (RaiseB e)
          with valid Created None show ?thesis by (subst drive.simps) (simp)
        next
          case (ReturnAwait x)
          show ?thesis
          proof (cases x)
            case (FutRef f)
            with valid Created None ReturnAwait show ?thesis
              by (subst drive.simps) (simp add: keeps_done_await_future)
          next
            case (CoroRef d)
            show ?thesis
            proof (cases "d < length (coros w) \<and> cstatus (coros w ! d) \<noteq> Suspended")
              case True
              then have "keeps_done (futs (set_status c Running w))
                           (futs (snd (drive None d (set_status c Running w))))"
                using "1.IH"(1) [of x d] valid Created None ReturnAwait CoroRef by simp
              with True valid Created None ReturnAwait CoroRef show ?thesis
                by (subst drive.simps) (simp)
            next
              case False
              with valid Created None ReturnAwait CoroRef show ?thesis
                by (subst drive.simps) auto
            qed
          qed
        next
          case (ReturnAwaitEnsure x)
          show ?thesis
          proof (cases "ensure_future x w")
            case (Pair r w1)
            then have a: "keeps_done (futs w) (futs w1)"
              using keeps_done_ensure_future [of w x] by simp
            show ?thesis
            proof (cases r)
              case (Inl e)
              with a Pair valid Created None ReturnAwaitEnsure show ?thesis
                by (subst drive.simps) (simp)
            next
              case (Inr f)
              let ?w2 = "upd_coro c (\<lambda>C. C\<lparr>cbody := ReturnAwait (FutRef f)\<rparr>) w1"
              have "keeps_done (futs ?w2) (futs (snd (await_future True None f ?w2)))"
                by (rule keeps_done_await_future)
              with a have "keeps_done (futs w) (futs (snd (await_future True None f ?w2)))"
                by (auto intro: keeps_done_trans)
              with Inr Pair valid Created None ReturnAwaitEnsure show ?thesis
                by (subst drive.simps) (simp)
            qed
          qed
        qed
      qed
    next
      case Suspended
      show ?thesis
      proof (cases "cbody (coros w ! c)")
        case (ReturnAwait x)
        show ?thesis
        proof (cases x)
          case (FutRef f)
          with valid Suspended ReturnAwait show ?thesis
            by (subst drive.simps) (simp add: keeps_done_await_future)
        next
          case (CoroRef d)
          have "keeps_done (futs (set_status c Running w))
                  (futs (snd (drive exc d (set_status c Running w))))"
            using "1.IH"(2) [of x d] valid Suspended ReturnAwait CoroRef by simp
          with valid Suspended ReturnAwait CoroRef show ?thesis
            by (subst drive.simps) (simp)
        qed
      qed (use valid Suspended in \<open>subst drive.simps, simp\<close>)+
    qed
  qed
qed

lemma keeps_done_call_soon: "keeps_done (futs w) (futs (snd (call_soon l cb w)))"
  by simp

lemma keeps_done_step:
  assumes "keeps_done (futs w) (futs w1)" and "keeps_done (futs w1) (futs (snd r))"
  shows "keeps_done (futs w) (futs (snd r))"
  using assms by (rule keeps_done_trans)

lemma keeps_done_task_step: "keeps_done (futs w) (futs (snd (task_step t exc w)))"
proof (cases "fstate (futs w ! t) = Pending")
  case False
  then show ?thesis by (simp add: task_step_def)
next
  case True
  show ?thesis
  proof (cases "task_coro (futs w ! t)")
    case None
    with True show ?thesis by (simp add: task_step_def)
  next
    case (Some c)
    obtain r w1 where d: "drive exc c w = (r, w1)" by (cases "drive exc c w")
    then have a: "keeps_done (futs w) (futs w1)"
      using keeps_done_drive [of w exc c] by simp
    show ?thesis
    proof (cases r)
      case (Returned v)
      with True Some d show ?thesis
        using keeps_done_step [OF a keeps_done_set_result [of w1 t v]]
        by (simp add: task_step_def)
    next
      case (Yielded f)
      with True Some d a show ?thesis
        using keeps_done_step [OF a keeps_done_add_done_callback [of w1 f "Wakeup t"]]
        by (simp add: task_step_def)
    next
      case (Raised x)
      show ?thesis
      proof (cases x)
        case (Exc e)
        with Raised True Some d show ?thesis
          using keeps_done_step [OF a keeps_done_set_exception [of w1 t e]]
          by (simp add: task_step_def)
      next
        case CancelledError
        with Raised True Some d show ?thesis
          using keeps_done_step [OF a keeps_done_cancel [of w1 t]]
          by (cases "future_cancel t w1"; cases "fst (future_cancel t w1)")
             (simp_all add: task_step_def)
      qed
    qed
  qed
qed

lemma keeps_done_task_wakeup: "keeps_done (futs w) (futs (snd (task_wakeup t f w)))"
proof -
  obtain r w1 where d: "future_result f w = (r, w1)" by (cases "future_result f w")
  then have a: "keeps_done (futs w) (futs w1)"
    using keeps_done_result [of w f] by simp
  show ?thesis
  proof (cases r)
    case (Inl e)
    with d show ?thesis
      using keeps_done_step [OF a keeps_done_task_step [of w1 t "Some e"]]
      by (simp add: task_wakeup_def)
  next
    case (Inr v)
    with d show ?thesis
      using keeps_done_step [OF a keeps_done_task_step [of w1 t None]]
      by (simp add: task_wakeup_def)
  qed
qed

lemma keeps_done_run_until_complete_cb:
  "keeps_done (futs w) (futs (snd (run_until_complete_cb f w)))"
  by (cases "fstate (futs w ! f)")
     (simp_all add: run_until_complete_cb_def Let_def keeps_done_update_same)

lemma keeps_done_run_callback: "keeps_done (futs w) (futs (snd (run_callback cb w)))"
proof (cases cb)
  case (CancelAction f)
  then show ?thesis
    using keeps_done_cancel [of w f]
    by (cases "future_cancel f w"; cases "fst (future_cancel f w)")
       (simp_all add: run_callback_def)
qed (simp_all add: run_callback_def keeps_done_set_result keeps_done_set_exception
       keeps_done_task_step keeps_done_task_wakeup keeps_done_run_until_complete_cb)

lemma keeps_done_handle_run: "keeps_done (futs w) (futs (handle_run l cb w))"
  using keeps_done_run_callback [of w cb]
  by (cases "run_callback cb w"; cases "fst (run_callback cb w)") (simp_all add: handle_run_def)




lemma keeps_doneD:
  "keeps_done fs fs' \<Longrightarrow> g < length fs \<Longrightarrow> fstate (fs ! g) \<noteq> Pending \<Longrightarrow> fstate (fs' ! g) = fstate (fs ! g)"
  by (simp add: keeps_done_def)

lemma futs_hand_off [simp]: "futs (snd (hand_off r)) = futs (snd r)"
  by (cases r; cases "fst r") (simp_all add: hand_off_def)

lemma fst_hand_off_open:
  "\<not> closed (loops w ! l) \<Longrightarrow> fst (hand_off (call_soon_threadsafe l cb w)) = Inr ()"
  by (simp add: hand_off_def call_soon_threadsafe_def call_soon_def)

lemma futs_call_soon_threadsafe [simp]: "futs (snd (call_soon_threadsafe l cb w)) = futs w"
  by (simp add: call_soon_threadsafe_def)

lemma handle_run_raises:
  "run_callback cb u = (Some x, u') \<Longrightarrow> handle_run l cb u = call_exception_handler l (CallbackException x) u'"
  by (simp add: handle_run_def)


lemmas world_defs = source0_def pending_world_def closed_world_def fresh_world_def after_first_def
  raising_world_def loop_world_def
lemmas op_defs = SetResult_def SetCancelled_def SetException_def hand_off_def
  call_soon_threadsafe_def call_soon_def upd_loop_def upd_fut_def run_once_def handle_run_def
  run_callback_def future_set_result_def future_set_exception_def future_cancel_def
  schedule_callbacks_def call_exception_handler_def


lemma futs_handle_run: "futs (handle_run l cb u) = futs (snd (run_callback cb u))"
  by (cases "run_callback cb u"; cases "fst (run_callback cb u)") (simp_all add: handle_run_def)

lemma applied_set_result:
  assumes "f < length (futs u)" and "fstate (futs u ! f) = Pending"
  shows "fstate (futs (snd (future_set_result f v u)) ! f) = Finished v"
proof -
  let ?u1 = "upd_fut f (\<lambda>F. F\<lparr>fstate := Finished v\<rparr>) u"
  have s: "fstate (futs ?u1 ! f) = Finished v" "f < length (futs ?u1)"
    using assms(1) by simp_all
  have "keeps_done (futs ?u1) (futs (snd (schedule_callbacks f ?u1)))"
    by (rule keeps_done_schedule_callbacks)
  from keeps_doneD [OF this s(2)] s(1) assms(2) show ?thesis
    by (simp add: future_set_result_def)
qed

lemma applied_set_exception:
  assumes "f < length (futs u)" and "fstate (futs u ! f) = Pending"
  shows "fstate (futs (snd (future_set_exception f e u)) ! f) = Faulted e"
proof -
  let ?u1 = "upd_fut f (\<lambda>F. F\<lparr>fstate := Faulted e\<rparr>) u"
  have s: "fstate (futs ?u1 ! f) = Faulted e" "f < length (futs ?u1)"
    using assms(1) by simp_all
  have "keeps_done (futs ?u1) (futs (snd (schedule_callbacks f ?u1)))"
    by (rule keeps_done_schedule_callbacks)
  from keeps_doneD [OF this s(2)] s(1)
  have a: "fstate (futs (snd (schedule_callbacks f ?u1)) ! f) = Faulted e" by simp
  have l: "f < length (futs (snd (schedule_callbacks f ?u1)))"
    using \<open>keeps_done (futs ?u1) (futs (snd (schedule_callbacks f ?u1)))\<close> s(2)
    by (simp add: keeps_done_def)
  show ?thesis
    using a l assms(2)
    by (cases "schedule_callbacks f ?u1"; cases "fst (schedule_callbacks f ?u1)")
       (simp_all add: future_set_exception_def)
qed

lemma applied_cancel:
  assumes "f < length (futs u)" and "fstate (futs u ! f) = Pending"
  shows "fstate (futs (snd (future_cancel f u)) ! f) = Cancelled"
proof -
  let ?u1 = "upd_fut f (\<lambda>F. F\<lparr>fstate := Cancelled\<rparr>) (upd_fut f (\<lambda>F. F\<lparr>log_traceback := False\<rparr>) u)"
  have s: "fstate (futs ?u1 ! f) = Cancelled" "f < length (futs ?u1)"
    using assms(1) by simp_all
  have "keeps_done (futs ?u1) (futs (snd (schedule_callbacks f ?u1)))"
    by (rule keeps_done_schedule_callbacks)
  from keeps_doneD [OF this s(2)] s(1)
  have a: "fstate (futs (snd (schedule_callbacks f ?u1)) ! f) = Cancelled" by simp
  show ?thesis
    using a assms(2)
    by (cases "schedule_callbacks f ?u1"; cases "fst (schedule_callbacks f ?u1)")
       (simp_all add: future_cancel_def Let_def)
qed

lemma ready_call_soon:
  "l < length (loops w) \<Longrightarrow> \<not> closed (loops w ! l) \<Longrightarrow>
   ready (loops (snd (call_soon l cb w)) ! l) = ready (loops w ! l) @ [cb]"
  by (simp add: call_soon_def upd_loop_def)

lemma drive_Return:
  "c < length (coros w) \<Longrightarrow> cstatus (coros w ! c) = Created \<Longrightarrow> cbody (coros w ! c) = Return v \<Longrightarrow>
   drive None c w = (Returned v, set_status c Closed w)"
  by (subst drive.simps) simp

lemma drive_RaiseB:
  "c < length (coros w) \<Longrightarrow> cstatus (coros w ! c) = Created \<Longrightarrow> cbody (coros w ! c) = RaiseB e \<Longrightarrow>
   drive None c w = (Raised e, set_status c Closed w)"
  by (subst drive.simps) simp

lemma drive_Closed:
  "c < length (coros w) \<Longrightarrow> cstatus (coros w ! c) = Closed \<Longrightarrow>
   drive exc c w = (Raised reuse_error, w)"
  by (subst drive.simps) simp

lemma drive_ReturnAwait_coro:
  "r < length (coros w) \<Longrightarrow> cstatus (coros w ! r) = Created \<Longrightarrow>
   cbody (coros w ! r) = ReturnAwait (CoroRef d) \<Longrightarrow>
   d < length (coros w) \<Longrightarrow> cstatus (coros w ! d) \<noteq> Suspended \<Longrightarrow>
   drive None r w = finish r (drive None d (set_status r Running w))"
  by (subst drive.simps) simp

lemma drive_ReturnAwait_fut:
  "r < length (coros w) \<Longrightarrow> cstatus (coros w ! r) = Created \<Longrightarrow>
   cbody (coros w ! r) = ReturnAwait (FutRef f) \<Longrightarrow>
   drive None r w = finish r (await_future True None f w)"
  by (subst drive.simps) simp

lemma drive_resume_fut:
  "r < length (coros w) \<Longrightarrow> cstatus (coros w ! r) = Suspended \<Longrightarrow>
   cbody (coros w ! r) = ReturnAwait (FutRef f) \<Longrightarrow>
   drive exc r w = finish r (await_future False exc f w)"
  by (subst drive.simps) simp

lemmas run_defs = get_result_def from_result_def new_coro_def asyncio_run_def new_event_loop_def
  set_event_loop_def create_task_def run_until_complete_def add_done_callback_def run_forever_def
  run_once_def handle_run_def run_callback_def task_step_def future_set_result_def
  schedule_callbacks_def call_soon_def upd_loop_def upd_fut_def upd_coro_def set_status_def
  finish_def run_until_complete_cb_def remove_done_callback_def future_result_def runner_close_def

lemma get_task_handle:
  "future self < length (futs w) \<Longrightarrow> get_task self w = (Inr (FutRef (future self)), w)"
  by (simp add: get_task_def ensure_future_def)

lemma futs_new_coro [simp]: "futs (snd (new_coro b w)) = futs w"
  by (simp add: new_coro_def)

lemma await_handle_future:
  "await_handle (FutRef f) w =
     finish (length (coros w)) (await_future True None f (snd (new_coro (ReturnAwait (FutRef f)) w)))"
  by (simp add: await_handle_def new_coro_def drive_ReturnAwait_fut)

lemma keeps_done_await_handle: "keeps_done (futs w) (futs (snd (await_handle x w)))"
  using keeps_done_drive [of "snd (new_coro (ReturnAwait x) w)" None "length (coros w)"]
  by (simp add: await_handle_def new_coro_def)

lemma await_handle_done:
  assumes "f < length (futs w)"
  shows "fstate (futs w ! f) = Finished v \<Longrightarrow> fst (await_handle (FutRef f) w) = Returned v"
    and "fstate (futs w ! f) = Faulted e \<Longrightarrow> fst (await_handle (FutRef f) w) = Raised (Exc e)"
    and "fstate (futs w ! f) = Cancelled \<Longrightarrow> fst (await_handle (FutRef f) w) = Raised CancelledError"
    and "fstate (futs w ! f) = Pending \<Longrightarrow> fst (await_handle (FutRef f) w) = Yielded f"
  using assms
  by (simp_all add: await_handle_future await_future_def future_result_def finish_def new_coro_def)

text \<open>One round of a loop whose queue holds nothing but the callback of a completion call.\<close>

lemma round_of_one:
  assumes "l < length (loops w)" and "ready (loops w ! l) = []" and "\<not> closed (loops w ! l)"
  shows "run_once l (snd (call_soon l cb w)) = handle_run l cb w"
proof -
  have "upd_loop l (\<lambda>L. L\<lparr>ready := []\<rparr>) (upd_loop l (\<lambda>L. L\<lparr>ready := ready L @ [cb]\<rparr>) w) = w"
    using assms(1,2) by (simp add: upd_loop_def list_update_same_conv)
  then show ?thesis
    using assms by (simp add: run_once_def call_soon_def) (simp add: upd_loop_def)
qed

lemma snd_hand_off [simp]: "snd (hand_off r) = snd r"
  by (cases r; cases "fst r") (simp_all add: hand_off_def)

lemma applied_in_round:
  assumes "loop self < length (loops w)" and "ready (loops w ! loop self) = []"
    and "\<not> closed (loops w ! loop self)"
    and "future self < length (futs w)" and "fstate (futs w ! future self) = Pending"
  shows "fstate (futs (run_once (loop self) (snd (SetResult self v w))) ! future self) = Finished v"
    and "fstate (futs (run_once (loop self) (snd (SetCancelled self w))) ! future self) = Cancelled"
    and "fstate (futs (run_once (loop self) (snd (SetException self e w))) ! future self) = Faulted e"
    and "future self < length (futs (run_once (loop self) (snd (SetResult self v w))))"
    and "future self < length (futs (run_once (loop self) (snd (SetCancelled self w))))"
    and "future self < length (futs (run_once (loop self) (snd (SetException self e w))))"
proof -
  have c: "fstate (futs (snd (run_callback (CancelAction (future self)) w)) ! future self) = Cancelled"
    using applied_cancel [OF assms(4,5)]
    by (cases "future_cancel (future self) w"; cases "fst (future_cancel (future self) w)")
       (simp_all add: run_callback_def)
  show "fstate (futs (run_once (loop self) (snd (SetResult self v w))) ! future self) = Finished v"
    using applied_set_result [OF assms(4,5)]
    by (simp add: SetResult_def call_soon_threadsafe_def round_of_one [OF assms(1,2,3)]
          futs_handle_run run_callback_def)
  show "fstate (futs (run_once (loop self) (snd (SetCancelled self w))) ! future self) = Cancelled"
    using c
    by (simp add: SetCancelled_def call_soon_threadsafe_def round_of_one [OF assms(1,2,3)]
          futs_handle_run)
  show "fstate (futs (run_once (loop self) (snd (SetException self e w))) ! future self) = Faulted e"
    using applied_set_exception [OF assms(4,5)]
    by (simp add: SetException_def call_soon_threadsafe_def round_of_one [OF assms(1,2,3)]
          futs_handle_run run_callback_def)
  have k: "future self < length (futs (handle_run (loop self) cb w))" for cb :: "'a callback"
    using keeps_done_handle_run [of w "loop self" cb] assms(4) by (simp add: keeps_done_def)
  show "future self < length (futs (run_once (loop self) (snd (SetResult self v w))))"
    "future self < length (futs (run_once (loop self) (snd (SetCancelled self w))))"
    "future self < length (futs (run_once (loop self) (snd (SetException self e w))))"
    using k
    by (simp_all add: SetResult_def SetCancelled_def SetException_def call_soon_threadsafe_def
          round_of_one [OF assms(1,2,3)])
qed

lemmas scenario_defs = start_def new_coro_def create_task_def run_once_def handle_run_def
  run_callback_def task_step_def task_wakeup_def future_set_result_def future_set_exception_def
  future_cancel_def future_result_def schedule_callbacks_def call_soon_def call_soon_threadsafe_def
  add_done_callback_def upd_loop_def upd_fut_def upd_coro_def set_status_def finish_def
  await_future_def SetResult_def SetCancelled_def SetException_def hand_off_def
  call_exception_handler_def

lemma two_observers_states:
  fixes w :: "'v world"
  assumes "running_loop w = Some (loop self)" and "loop self < length (loops w)"
    and "ready (loops w ! loop self) = []" and "\<not> closed (loops w ! loop self)"
    and "future self < length (futs w)" and "fstate (futs w ! future self) = Pending"
    and "floop (futs w ! future self) = loop self" and "fcallbacks (futs w ! future self) = []"
  shows "fstate (futs (two_observers self (\<lambda>s. SetResult s v) w) ! length (futs w)) = Finished v"
    and "fstate (futs (two_observers self (\<lambda>s. SetResult s v) w) ! Suc (length (futs w))) = Finished v"
    and "fstate (futs (two_observers self SetCancelled w) ! length (futs w)) = Cancelled"
    and "fstate (futs (two_observers self SetCancelled w) ! Suc (length (futs w))) = Cancelled"
    and "fstate (futs (two_observers self (\<lambda>s. SetException s e) w) ! length (futs w)) = Faulted e"
    and "fstate (futs (two_observers self (\<lambda>s. SetException s e) w) ! Suc (length (futs w))) = Faulted e"
proof -
  obtain cs fs ls rl cl p where w: "w = \<lparr>coros = cs, futs = fs, loops = ls, running_loop = rl,
      current_loop = cl, policy_creates_loop = p\<rparr>"
    by (cases w)
  obtain f l where s: "self = \<lparr>future = f, loop = l\<rparr>" by (cases self)
  from assms have h: "rl = Some l" "l < length ls" "ready (ls ! l) = []" "\<not> closed (ls ! l)"
    "f < length fs" "fstate (fs ! f) = Pending" "floop (fs ! f) = l" "fcallbacks (fs ! f) = []"
    unfolding w s by simp_all
  show "fstate (futs (two_observers self (\<lambda>s. SetResult s v) w) ! length (futs w)) = Finished v"
    unfolding w s two_observers_def using h
    by (simp add: get_task_def ensure_future_def scenario_defs Let_def nth_append
          drive_ReturnAwait_fut drive_resume_fut)
  show "fstate (futs (two_observers self (\<lambda>s. SetResult s v) w) ! Suc (length (futs w))) = Finished v"
    unfolding w s two_observers_def using h
    by (simp add: get_task_def ensure_future_def scenario_defs Let_def nth_append
          drive_ReturnAwait_fut drive_resume_fut)
  show "fstate (futs (two_observers self SetCancelled w) ! length (futs w)) = Cancelled"
    unfolding w s two_observers_def using h
    by (simp add: get_task_def ensure_future_def scenario_defs Let_def nth_append
          drive_ReturnAwait_fut drive_resume_fut)
  show "fstate (futs (two_observers self SetCancelled w) ! Suc (length (futs w))) = Cancelled"
    unfolding w s two_observers_def using h
    by (simp add: get_task_def ensure_future_def scenario_defs Let_def nth_append
          drive_ReturnAwait_fut drive_resume_fut)
  show "fstate (futs (two_observers self (\<lambda>s. SetException s e) w) ! length (futs w)) = Faulted e"
    unfolding w s two_observers_def using h
    by (simp add: get_task_def ensure_future_def scenario_defs Let_def nth_append
          drive_ReturnAwait_fut drive_resume_fut)
  show "fstate (futs (two_observers self (\<lambda>s. SetException s e) w) ! Suc (length (futs w))) = Faulted e"
    unfolding w s two_observers_def using h
    by (simp add: get_task_def ensure_future_def scenario_defs Let_def nth_append
          drive_ReturnAwait_fut drive_resume_fut)
qed

lemma await_twice:
  assumes "f < length (futs w)" and "fstate (futs w ! f) \<noteq> Pending"
  shows "fst (await_handle (FutRef f) (snd (await_handle (FutRef f) w))) = fst (await_handle (FutRef f) w)"
proof -
  let ?w1 = "snd (await_handle (FutRef f) w)"
  have k: "keeps_done (futs w) (futs ?w1)" by (rule keeps_done_await_handle)
  then have l: "f < length (futs ?w1)" using assms(1) by (simp add: keeps_done_def)
  from keeps_doneD [OF k assms] have e: "fstate (futs ?w1 ! f) = fstate (futs w ! f)" .
  show ?thesis
    using assms l e
    by (cases "fstate (futs w ! f)") (simp_all add: await_handle_done)
qed

lemma start_running:
  assumes "running_loop w = Some l" and "\<not> closed (loops w ! l)"
  shows "start x w =
     (Inr (),
      upd_loop l (\<lambda>L. L\<lparr>ready := ready L @ [TaskStep (length (futs w)) None]\<rparr>)
        (w\<lparr>coros := coros w @ [\<lparr>cbody = ReturnAwait x, cstatus = Created\<rparr>],
           futs := futs w @ [\<lparr>fstate = Pending, floop = l, fcallbacks = [], log_traceback = False,
                               task_coro = Some (length (coros w))\<rparr>]\<rparr>))"
  using assms by (simp add: start_def new_coro_def create_task_def upd_loop_def Let_def)

lemma task_step_raises:
  assumes "fstate (futs u ! t) = Pending" and "task_coro (futs u ! t) = Some r"
    and "drive exc r u = (Raised (Exc e), u1)" and "fcallbacks (futs u1 ! t) = []"
    and "fstate (futs u1 ! t) = Pending" and "t < length (futs u1)"
  shows "task_step t exc u =
     (None, upd_fut t (\<lambda>F. F\<lparr>log_traceback := True\<rparr>) (upd_fut t (\<lambda>F. F\<lparr>fstate := Faulted e\<rparr>) u1))"
proof -
  have "schedule_callbacks t (upd_fut t (\<lambda>F. F\<lparr>fstate := Faulted e\<rparr>) u1)
        = (None, upd_fut t (\<lambda>F. F\<lparr>fstate := Faulted e\<rparr>) u1)"
    using assms(4,6) by (simp add: schedule_callbacks_def Let_def)
  with assms show ?thesis
    by (simp add: task_step_def future_set_exception_def)
qed

lemma coros_call_soon [simp]: "coros (snd (call_soon l cb w)) = coros w"
  by (simp add: call_soon_def upd_loop_def)

lemma coros_future_result [simp]: "coros (snd (future_result f w)) = coros w"
  by (cases "fstate (futs w ! f)") (simp_all add: future_result_def upd_fut_def)

lemma coros_await_future [simp]: "coros (snd (await_future fresh exc f w)) = coros w"
  by (cases "future_result f w"; cases "fst (future_result f w)")
     (use coros_future_result [of f w] in \<open>simp_all add: await_future_def split: option.splits\<close>)

lemma coros_get_event_loop [simp]: "coros (snd (get_event_loop w)) = coros w"
  by (simp add: get_event_loop_def new_event_loop_def set_event_loop_def split: option.splits)

lemma coros_create_task [simp]: "coros (snd (create_task l c w)) = coros w"
  by (simp add: create_task_def Let_def upd_loop_def)

lemma length_coros_set_status [simp]: "length (coros (set_status c s w)) = length (coros w)"
  by (simp add: set_status_def upd_coro_def)

lemma length_coros_upd_coro [simp]: "length (coros (upd_coro c g w)) = length (coros w)"
  by (simp add: upd_coro_def)

lemma length_coros_ensure_future [simp]:
  "length (coros (snd (ensure_future x w))) = length (coros w)"
proof (cases x)
  case (FutRef f)
  then show ?thesis by (simp add: ensure_future_def)
next
  case (CoroRef c)
  obtain r w1 where g: "get_event_loop w = (r, w1)" by (cases "get_event_loop w")
  then have e: "coros w1 = coros w" using coros_get_event_loop [of w] by simp
  show ?thesis
  proof (cases r)
    case (Inl a)
    with g e CoroRef show ?thesis by (simp add: ensure_future_def)
  next
    case (Inr l)
    obtain r2 w2 where t: "create_task l c w1 = (r2, w2)" by (cases "create_task l c w1")
    then have "coros w2 = coros w1" using coros_create_task [of l c w1] by simp
    with g e CoroRef Inr t show ?thesis by (cases r2) (simp_all add: ensure_future_def)
  qed
qed

lemma coros_finish:
  "length (coros (snd (finish c rw))) = length (coros (snd rw))"
  "c < length (coros (snd rw)) \<Longrightarrow> cstatus (coros (snd (finish c rw)) ! c) \<in> {Suspended, Closed}"
  "g \<noteq> c \<Longrightarrow> coros (snd (finish c rw)) ! g = coros (snd rw) ! g"
  by (cases "fst rw"; simp add: finish_def set_status_def upd_coro_def)+

text \<open>After its first send, a \<^verbatim>\<open>get_value\<close> coroutine is suspended or finished.\<close>

lemma drive_get_value:
  assumes "g < length (coros w)" and "cstatus (coros w ! g) = Created"
    and "cbody (coros w ! g) = ReturnAwaitEnsure a"
  shows "length (coros (snd (drive None g w))) = length (coros w)
       \<and> cstatus (coros (snd (drive None g w)) ! g) \<in> {Suspended, Closed}"
proof -
  obtain r w1 where e: "ensure_future a w = (r, w1)" by (cases "ensure_future a w")
  then have l: "length (coros w1) = length (coros w)"
    using length_coros_ensure_future [of a w] by simp
  show ?thesis
  proof (cases r)
    case (Inl x)
    with assms e l show ?thesis
      by (subst drive.simps, subst (2) drive.simps) (simp add: set_status_def upd_coro_def)
  next
    case (Inr f)
    let ?w2 = "upd_coro g (\<lambda>C. C\<lparr>cbody := ReturnAwait (FutRef f)\<rparr>) w1"
    have "g < length (coros (snd (await_future True None f ?w2)))"
      using assms(1) l by simp
    from coros_finish(2) [OF this] coros_finish(1) [of g "await_future True None f ?w2"]
    show ?thesis
      using assms e l Inr
      by (subst drive.simps, subst (2) drive.simps) simp
  qed
qed

lemma await_suspended_coroutine:
  assumes "g < length (coros w)" and "cstatus (coros w ! g) = Suspended"
  shows "fst (await_handle (CoroRef g) w) = Raised awaited_already"
  using assms
  by (simp add: await_handle_def new_coro_def) (subst drive.simps, simp add: nth_append)

lemma await_closed_coroutine:
  assumes "g < length (coros w)" and "cstatus (coros w ! g) = Closed"
  shows "fst (await_handle (CoroRef g) w) = Raised reuse_error"
proof -
  let ?w1 = "snd (new_coro (ReturnAwait (CoroRef g)) w)"
  have d: "drive None g (set_status (length (coros w)) Running ?w1)
         = (Raised reuse_error, set_status (length (coros w)) Running ?w1)"
    using assms
    by (intro drive_Closed) (simp_all add: new_coro_def set_status_def upd_coro_def nth_append)
  have "drive None (length (coros w)) ?w1
      = finish (length (coros w)) (drive None g (set_status (length (coros w)) Running ?w1))"
    using assms by (intro drive_ReturnAwait_coro) (simp_all add: new_coro_def nth_append)
  with d show ?thesis by (simp add: await_handle_def new_coro_def finish_def)
qed

lemma await_handle_new_coroutine:
  assumes "g < length (coros w)" and "cstatus (coros w ! g) = Created"
  shows "await_handle (CoroRef g) w
       = finish (length (coros w))
           (drive None g (set_status (length (coros w)) Running (snd (new_coro (ReturnAwait (CoroRef g)) w))))"
  using assms
  by (simp add: await_handle_def new_coro_def drive_ReturnAwait_coro nth_append)


lemma await_returning_coroutine:
  assumes "g < length (coros w)" and "cstatus (coros w ! g) = Created"
    and "cbody (coros w ! g) = Return v"
  shows "fst (await_handle (CoroRef g) w) = Returned v"
    and "g < length (coros (snd (await_handle (CoroRef g) w)))"
    and "cstatus (coros (snd (await_handle (CoroRef g) w)) ! g) = Closed"
proof -
  let ?W = "set_status (length (coros w)) Running (snd (new_coro (ReturnAwait (CoroRef g)) w))"
  have d: "drive None g ?W = (Returned v, set_status g Closed ?W)"
    using assms
    by (intro drive_Return) (simp_all add: new_coro_def set_status_def upd_coro_def nth_append)
  have e: "await_handle (CoroRef g) w
      = (Returned v, set_status (length (coros w)) Closed (set_status g Closed ?W))"
    unfolding await_handle_new_coroutine [OF assms(1,2)] d by (simp add: finish_def)
  show "fst (await_handle (CoroRef g) w) = Returned v"
    "g < length (coros (snd (await_handle (CoroRef g) w)))"
    "cstatus (coros (snd (await_handle (CoroRef g) w)) ! g) = Closed"
    unfolding e using assms(1)
    by (simp_all add: new_coro_def set_status_def upd_coro_def nth_append nth_list_update)
qed

lemma await_get_value_coroutine:
  assumes "g < length (coros w)" and "cstatus (coros w ! g) = Created"
    and "cbody (coros w ! g) = ReturnAwaitEnsure a"
  shows "g < length (coros (snd (await_handle (CoroRef g) w)))
       \<and> cstatus (coros (snd (await_handle (CoroRef g) w)) ! g) \<in> {Suspended, Closed}"
proof -
  let ?r = "length (coros w)"
  let ?W = "set_status ?r Running (snd (new_coro (ReturnAwait (CoroRef g)) w))"
  have g: "g < length (coros ?W)" "cstatus (coros ?W ! g) = Created"
    "cbody (coros ?W ! g) = ReturnAwaitEnsure a"
    using assms by (simp_all add: new_coro_def set_status_def upd_coro_def nth_append)
  note d = drive_get_value [OF g]
  have n: "g \<noteq> ?r" using assms(1) by simp
  show ?thesis
    unfolding await_handle_new_coroutine [OF assms(1,2)]
    using d g(1) coros_finish(1) [of ?r "drive None g ?W"] coros_finish(3) [OF n, of "drive None g ?W"]
    by simp
qed


lemma ready_upd_loop_append:
  "l < length (loops w) \<Longrightarrow>
   ready (loops (upd_loop l (\<lambda>L. L\<lparr>ready := ready L @ [cb]\<rparr>) w) ! l) = ready (loops w ! l) @ [cb]"
  by (simp add: upd_loop_def)





lemma queue_grows_append [simp]: "queue_grows ls (ls @ xs)"
  by (simp add: queue_grows_def nth_append)

lemma loops_upd_fut [simp]: "loops (upd_fut f g w) = loops w"
  by (simp add: upd_fut_def)

lemma loops_upd_coro [simp]: "loops (upd_coro c g w) = loops w"
  by (simp add: upd_coro_def)

lemma loops_set_status [simp]: "loops (set_status c s w) = loops w"
  by (simp add: set_status_def)

lemma loops_upd_loop [simp]: "loops (upd_loop l g w) = (loops w)[l := g (loops w ! l)]"
  by (simp add: upd_loop_def)








lemma loops_future_result [simp]: "loops (snd (future_result f w)) = loops w"
  by (cases "fstate (futs w ! f)") (simp_all add: future_result_def)





lemma loops_await_future [simp]: "loops (snd (await_future fresh exc f w)) = loops w"
  by (cases "future_result f w"; cases "fst (future_result f w)")
     (use loops_future_result [of f w] in \<open>simp_all add: await_future_def split: option.splits\<close>)

lemma loops_finish [simp]: "loops (snd (finish c rw)) = loops (snd rw)"
  by (cases "fst rw") (simp_all add: finish_def)

















subsection \<open>A second completion\<close>




subsection \<open>The round trip of a value\<close>

text \<open>
  C3.  With no loop running in the thread, \<^verbatim>\<open>get_result(from_result(x))\<close> returns \<open>x\<close>,
  for every value \<open>x\<close>, \<^verbatim>\<open>None\<close> included.  The new loop needs two rounds: the task of
  \<^verbatim>\<open>runner()\<close> finishes in the first, and the callback that stops the loop runs in the
  second; every bound of at least two rounds gives the result.
\<close>

theorem get_result_from_result:
  fixes x :: "'v pyval"
  assumes "running_loop w = None" and "2 \<le> n"
  shows "map_option fst (get_result n (fst (from_result x w)) (snd (from_result x w))) = Some (Inr x)"
proof -
  from assms(2) obtain m where n: "n = Suc (Suc m)"
    by (cases n; cases "n - 1") auto
  obtain cs fs ls rl cl p where w: "w = \<lparr>coros = cs, futs = fs, loops = ls, running_loop = rl,
      current_loop = cl, policy_creates_loop = p\<rparr>"
    by (cases w)
  with assms(1) have rl: "rl = None" by simp
  show ?thesis
    unfolding n w rl
    by (simp add: run_defs Let_def nth_append drive_ReturnAwait_coro drive_Return)
qed

theorem get_result_from_result_witness:
  "running_loop fresh_world = None \<and> (2::nat) \<le> 2
   \<and> map_option fst (get_result 2 (fst (from_result PyNone fresh_world)) (snd (from_result PyNone fresh_world)))
        = Some (Inr PyNone)
   \<and> map_option fst (get_result 2 (fst (from_result (PyVal 7) fresh_world)) (snd (from_result (PyVal 7) fresh_world)))
        = Some (Inr (PyVal 7))"
proof -
  have h: "running_loop fresh_world = None" "(2::nat) \<le> 2"
    by (simp_all add: world_defs)
  show ?thesis
    using h get_result_from_result [OF h, of PyNone] get_result_from_result [OF h, of "PyVal 7"]
    by simp
qed

subsection \<open>Fan-out\<close>

text \<open>
  C4.  \<^verbatim>\<open>get_task\<close> returns the future of the source and changes nothing, in every
  world, so two calls return handles to the same completion.
  Two observers that await the handle before the completion both end in the state the
  one transition gave the future: finished with the value, cancelled, or faulted with the
  exception.  Two observers that await it one after the other once the transition is
  applied get the same outcome too.
\<close>

theorem fan_out_consistent:
  fixes w :: "'v world"
  assumes "running_loop w = Some (loop self)" and "loop self < length (loops w)"
    and "ready (loops w ! loop self) = []" and "\<not> closed (loops w ! loop self)"
    and "future self < length (futs w)" and "fstate (futs w ! future self) = Pending"
    and "floop (futs w ! future self) = loop self" and "fcallbacks (futs w ! future self) = []"
  shows "get_task self w = (Inr (FutRef (future self)), w)
       \<and> (future self < length (futs u) \<longrightarrow> get_task self u = (Inr (FutRef (future self)), u))
       \<and> fstate (futs (two_observers self (\<lambda>s. SetResult s v) w) ! length (futs w)) = Finished v
       \<and> fstate (futs (two_observers self (\<lambda>s. SetResult s v) w) ! Suc (length (futs w))) = Finished v
       \<and> fstate (futs (two_observers self SetCancelled w) ! length (futs w)) = Cancelled
       \<and> fstate (futs (two_observers self SetCancelled w) ! Suc (length (futs w))) = Cancelled
       \<and> fstate (futs (two_observers self (\<lambda>s. SetException s e) w) ! length (futs w)) = Faulted e
       \<and> fstate (futs (two_observers self (\<lambda>s. SetException s e) w) ! Suc (length (futs w))) = Faulted e
       \<and> fst (await_handle (FutRef (future self)) (run_once (loop self) (snd (SetResult self v w))))
           = Returned v
       \<and> fst (await_handle (FutRef (future self))
            (snd (await_handle (FutRef (future self)) (run_once (loop self) (snd (SetResult self v w))))))
           = Returned v
       \<and> fst (await_handle (FutRef (future self)) (run_once (loop self) (snd (SetCancelled self w))))
           = Raised CancelledError
       \<and> fst (await_handle (FutRef (future self))
            (snd (await_handle (FutRef (future self)) (run_once (loop self) (snd (SetCancelled self w))))))
           = Raised CancelledError
       \<and> fst (await_handle (FutRef (future self)) (run_once (loop self) (snd (SetException self e w))))
           = Raised (Exc e)
       \<and> fst (await_handle (FutRef (future self))
            (snd (await_handle (FutRef (future self)) (run_once (loop self) (snd (SetException self e w))))))
           = Raised (Exc e)"
proof -
  note a = applied_in_round [OF assms(2,3,4,5,6)]
  have o: "fst (await_handle (FutRef (future self)) (run_once (loop self) (snd (SetResult self v w))))
           = Returned v"
    "fst (await_handle (FutRef (future self)) (run_once (loop self) (snd (SetCancelled self w))))
           = Raised CancelledError"
    "fst (await_handle (FutRef (future self)) (run_once (loop self) (snd (SetException self e w))))
           = Raised (Exc e)"
    using a by (simp_all add: await_handle_done)
  have t: "fst (await_handle (FutRef (future self))
            (snd (await_handle (FutRef (future self)) (run_once (loop self) (snd (SetResult self v w))))))
           = Returned v"
    "fst (await_handle (FutRef (future self))
            (snd (await_handle (FutRef (future self)) (run_once (loop self) (snd (SetCancelled self w))))))
           = Raised CancelledError"
    "fst (await_handle (FutRef (future self))
            (snd (await_handle (FutRef (future self)) (run_once (loop self) (snd (SetException self e w))))))
           = Raised (Exc e)"
    using a o by (simp_all add: await_twice)
  have g: "future self < length (futs u) \<longrightarrow> get_task self u = (Inr (FutRef (future self)), u)"
    by (simp add: get_task_handle)
  from get_task_handle [OF assms(5)] g two_observers_states [OF assms] o t show ?thesis by simp
qed

theorem fan_out_consistent_witness:
  "running_loop pending_world = Some (loop source0) \<and> loop source0 < length (loops pending_world)
   \<and> ready (loops pending_world ! loop source0) = [] \<and> \<not> closed (loops pending_world ! loop source0)
   \<and> future source0 < length (futs pending_world)
   \<and> fstate (futs pending_world ! future source0) = Pending
   \<and> floop (futs pending_world ! future source0) = loop source0
   \<and> fcallbacks (futs pending_world ! future source0) = []
   \<and> get_task source0 pending_world = (Inr (FutRef 0), pending_world)
   \<and> fstate (futs (two_observers source0 (\<lambda>s. SetResult s (PyVal 1)) pending_world) ! 1)
        = Finished (PyVal 1)
   \<and> fstate (futs (two_observers source0 (\<lambda>s. SetResult s (PyVal 1)) pending_world) ! 2)
        = Finished (PyVal 1)
   \<and> fstate (futs (two_observers source0 SetCancelled pending_world) ! 1) = Cancelled
   \<and> fstate (futs (two_observers source0 SetCancelled pending_world) ! 2) = Cancelled"
proof -
  have h: "running_loop pending_world = Some (loop source0)" "loop source0 < length (loops pending_world)"
    "ready (loops pending_world ! loop source0) = []" "\<not> closed (loops pending_world ! loop source0)"
    "future source0 < length (futs pending_world)"
    "fstate (futs pending_world ! future source0) = Pending"
    "floop (futs pending_world ! future source0) = loop source0"
    "fcallbacks (futs pending_world ! future source0) = []"
    by (simp_all add: world_defs)
  have s: "future source0 = 0" "loop source0 = 0" "length (futs pending_world) = 1"
    by (simp_all add: world_defs)
  show ?thesis
    using h s fan_out_consistent [OF h, where v = "PyVal 1" and e = "UserError ''boom''"
        and u = pending_world]
    by (simp add: numeral_2_eq_2)
qed

subsection \<open>The blocking bridges inside a running loop\<close>

text \<open>
  C5.  Called while a loop is running in the thread, \<^verbatim>\<open>get_result\<close> and
  \<^verbatim>\<open>run_synchronously\<close> raise the \<^verbatim>\<open>RuntimeError\<close> of \<^verbatim>\<open>asyncio.run\<close> to their caller.
  They return for every bound on the rounds, zero included, since no loop is run; no
  loop and no task is made, and the running loop stays the running loop.  The one
  thing left behind is the \<^verbatim>\<open>runner()\<close> coroutine, which was made for the call and is
  never awaited.
\<close>

theorem blocking_bridge_rejects_running_loop:
  assumes "running_loop w = Some l"
  shows "get_result n x w = Some (Inl nested_run_error, snd (new_coro (ReturnAwait x) w))
       \<and> run_synchronously n x w = Some (Inl nested_run_error, snd (new_coro (ReturnAwait x) w))
       \<and> loops (snd (new_coro (ReturnAwait x) w)) = loops w
       \<and> futs (snd (new_coro (ReturnAwait x) w)) = futs w
       \<and> running_loop (snd (new_coro (ReturnAwait x) w)) = Some l"
  using assms by (simp add: get_result_def run_synchronously_def asyncio_run_def new_coro_def)

theorem blocking_bridge_rejects_running_loop_witness:
  "running_loop loop_world = Some 0
   \<and> map_option fst (get_result 0 (CoroRef 0) loop_world) = Some (Inl nested_run_error)
   \<and> map_option fst (run_synchronously 0 (CoroRef 0) loop_world) = Some (Inl nested_run_error)"
proof -
  have h: "running_loop loop_world = Some 0"
    by (simp add: loop_world_def)
  show ?thesis
    using h blocking_bridge_rejects_running_loop [OF h, of 0 "CoroRef 0"] by simp
qed

subsection \<open>Fire and forget\<close>

text \<open>
  C6.  With a loop running, \<^verbatim>\<open>start(x)\<close> returns \<^verbatim>\<open>None\<close> whatever \<open>x\<close> is: it makes the
  \<^verbatim>\<open>runner()\<close> coroutine and its task, puts the task's first step at the end of the
  loop's queue, and leaves the loop neither closed nor stopping and its exception log as it
  was.  The task is pending, has no done callback, and nobody holds it.  Whenever the loop
  runs a step of such a task \<open>t\<close> and its coroutine raises an \<^verbatim>\<open>Exception\<close> \<open>e\<close> there,
  the handle returns normally: the loops are as the coroutine left them (the step reports
  nothing, stops nothing and closes nothing), and the task is faulted with \<open>e\<close> and marked
  as not retrieved.  Its finalizer then hands \<open>e\<close> to the exception handler of the loop.
\<close>

theorem start_isolates_failure:
  assumes "running_loop w = Some l" and "l < length (loops w)" and "\<not> closed (loops w ! l)"
  shows "fst (start x w) = Inr ()
       \<and> coros (snd (start x w)) = coros w @ [\<lparr>cbody = ReturnAwait x, cstatus = Created\<rparr>]
       \<and> futs (snd (start x w))
           = futs w @ [\<lparr>fstate = Pending, floop = l, fcallbacks = [], log_traceback = False,
                         task_coro = Some (length (coros w))\<rparr>]
       \<and> ready (loops (snd (start x w)) ! l) = ready (loops w ! l) @ [TaskStep (length (futs w)) None]
       \<and> closed (loops (snd (start x w)) ! l) = closed (loops w ! l)
       \<and> stopping (loops (snd (start x w)) ! l) = stopping (loops w ! l)
       \<and> exc_log (loops (snd (start x w)) ! l) = exc_log (loops w ! l)
       \<and> (t < length (futs u1) \<and> fstate (futs u ! t) = Pending \<and> task_coro (futs u ! t) = Some r
            \<and> drive exc r u = (Raised (Exc e), u1)
            \<and> fstate (futs u1 ! t) = Pending \<and> fcallbacks (futs u1 ! t) = [] \<longrightarrow>
              loops (handle_run l (TaskStep t exc) u) = loops u1
            \<and> fstate (futs (handle_run l (TaskStep t exc) u) ! t) = Faulted e
            \<and> log_traceback (futs (handle_run l (TaskStep t exc) u) ! t)
            \<and> future_del t (handle_run l (TaskStep t exc) u)
                = call_exception_handler (floop (futs u1 ! t)) (NeverRetrieved t e)
                    (handle_run l (TaskStep t exc) u))"
proof -
  note s = start_running [OF assms(1,3), of x]
  have a: "fst (start x w) = Inr ()
       \<and> coros (snd (start x w)) = coros w @ [\<lparr>cbody = ReturnAwait x, cstatus = Created\<rparr>]
       \<and> futs (snd (start x w))
           = futs w @ [\<lparr>fstate = Pending, floop = l, fcallbacks = [], log_traceback = False,
                         task_coro = Some (length (coros w))\<rparr>]
       \<and> ready (loops (snd (start x w)) ! l) = ready (loops w ! l) @ [TaskStep (length (futs w)) None]
       \<and> closed (loops (snd (start x w)) ! l) = closed (loops w ! l)
       \<and> stopping (loops (snd (start x w)) ! l) = stopping (loops w ! l)
       \<and> exc_log (loops (snd (start x w)) ! l) = exc_log (loops w ! l)"
    using assms(2) by (simp add: s upd_loop_def)
  have b: "t < length (futs u1) \<and> fstate (futs u ! t) = Pending \<and> task_coro (futs u ! t) = Some r
            \<and> drive exc r u = (Raised (Exc e), u1)
            \<and> fstate (futs u1 ! t) = Pending \<and> fcallbacks (futs u1 ! t) = [] \<longrightarrow>
              loops (handle_run l (TaskStep t exc) u) = loops u1
            \<and> fstate (futs (handle_run l (TaskStep t exc) u) ! t) = Faulted e
            \<and> log_traceback (futs (handle_run l (TaskStep t exc) u) ! t)
            \<and> future_del t (handle_run l (TaskStep t exc) u)
                = call_exception_handler (floop (futs u1 ! t)) (NeverRetrieved t e)
                    (handle_run l (TaskStep t exc) u)"
  proof (intro impI, elim conjE)
    assume h: "t < length (futs u1)" "fstate (futs u ! t) = Pending" "task_coro (futs u ! t) = Some r"
      "drive exc r u = (Raised (Exc e), u1)" "fstate (futs u1 ! t) = Pending"
      "fcallbacks (futs u1 ! t) = []"
    have "handle_run l (TaskStep t exc) u
        = upd_fut t (\<lambda>F. F\<lparr>log_traceback := True\<rparr>) (upd_fut t (\<lambda>F. F\<lparr>fstate := Faulted e\<rparr>) u1)"
      using task_step_raises [OF h(2,3,4,6,5,1)] by (simp add: handle_run_def run_callback_def)
    then show "loops (handle_run l (TaskStep t exc) u) = loops u1
            \<and> fstate (futs (handle_run l (TaskStep t exc) u) ! t) = Faulted e
            \<and> log_traceback (futs (handle_run l (TaskStep t exc) u) ! t)
            \<and> future_del t (handle_run l (TaskStep t exc) u)
                = call_exception_handler (floop (futs u1 ! t)) (NeverRetrieved t e)
                    (handle_run l (TaskStep t exc) u)"
      using h(1) by (simp add: upd_fut_def future_del_def)
  qed
  from a b show ?thesis by simp
qed

theorem start_isolates_failure_witness:
  "running_loop raising_world = Some 0 \<and> 0 < length (loops raising_world)
   \<and> \<not> closed (loops raising_world ! 0)
   \<and> ready (loops raising_world ! 0) = []
   \<and> fst (start (CoroRef 0) raising_world) = Inr ()
   \<and> ready (loops (snd (start (CoroRef 0) raising_world)) ! 0) = [TaskStep 0 None]
   \<and> fstate (futs (run_once 0 (snd (start (CoroRef 0) raising_world))) ! 0)
        = Faulted (UserError ''boom'')
   \<and> loops (run_once 0 (snd (start (CoroRef 0) raising_world)))
        = [\<lparr>ready = [], closed = False, stopping = False, exc_log = []\<rparr>]
   \<and> exc_log (loops (future_del 0 (run_once 0 (snd (start (CoroRef 0) raising_world)))) ! 0)
        = [NeverRetrieved 0 (UserError ''boom'')]"
proof -
  let ?u = "\<lparr>coros = [\<lparr>cbody = RaiseB (Exc (UserError ''boom'')), cstatus = Created\<rparr>,
                       \<lparr>cbody = ReturnAwait (CoroRef 0), cstatus = Created\<rparr>],
             futs = [\<lparr>fstate = Pending, floop = 0, fcallbacks = [], log_traceback = False,
                      task_coro = Some 1\<rparr>],
             loops = [\<lparr>ready = [], closed = False, stopping = False, exc_log = []\<rparr>],
             running_loop = Some 0, current_loop = Some 0, policy_creates_loop = False\<rparr> :: nat world"
  let ?u1 = "\<lparr>coros = [\<lparr>cbody = RaiseB (Exc (UserError ''boom'')), cstatus = Closed\<rparr>,
                       \<lparr>cbody = ReturnAwait (CoroRef 0), cstatus = Closed\<rparr>],
             futs = [\<lparr>fstate = Pending, floop = 0, fcallbacks = [], log_traceback = False,
                      task_coro = Some 1\<rparr>],
             loops = [\<lparr>ready = [], closed = False, stopping = False, exc_log = []\<rparr>],
             running_loop = Some 0, current_loop = Some 0, policy_creates_loop = False\<rparr> :: nat world"
  have h: "running_loop raising_world = Some 0" "0 < length (loops raising_world)"
    "\<not> closed (loops raising_world ! 0)"
    by (simp_all add: raising_world_def)
  have q: "ready (loops raising_world ! 0) = []" "futs raising_world = []"
    by (simp_all add: raising_world_def)
  have d: "drive None 1 ?u = (Raised (Exc (UserError ''boom'')), ?u1)"
    by (simp add: drive_ReturnAwait_coro drive_RaiseB finish_def set_status_def upd_coro_def)
  have r: "run_once 0 (snd (start (CoroRef 0) raising_world)) = handle_run 0 (TaskStep 0 None) ?u"
    by (simp add: raising_world_def start_def new_coro_def create_task_def upd_loop_def run_once_def)
  have p: "0 < length (futs ?u1) \<and> fstate (futs ?u ! 0) = Pending \<and> task_coro (futs ?u ! 0) = Some 1
      \<and> drive None 1 ?u = (Raised (Exc (UserError ''boom'')), ?u1)
      \<and> fstate (futs ?u1 ! 0) = Pending \<and> fcallbacks (futs ?u1 ! 0) = []"
    using d by simp
  show ?thesis
    using h q r p
      start_isolates_failure [OF h, where x = "CoroRef 0" and t = 0 and u = ?u and ?u1.0 = ?u1
        and r = 1 and exc = None and e = "UserError ''boom''"]
    by (simp add: call_exception_handler_def upd_loop_def)
qed

subsection \<open>Cancellation\<close>

text \<open>
  C7.  On a completion source with a pending future, \<^verbatim>\<open>SetCancelled()\<close> returns
  \<^verbatim>\<open>None\<close>; once the loop has run its callback the future is cancelled, \<^verbatim>\<open>get_task\<close>
  hands out that future, and awaiting it raises \<^verbatim>\<open>CancelledError\<close>.  That outcome is
  neither the value an observer gets after \<^verbatim>\<open>SetResult(v)\<close> nor the exception it gets
  after \<^verbatim>\<open>SetException(e)\<close>, whatever \<open>v\<close> and the \<^verbatim>\<open>Exception\<close> \<open>e\<close> are.
\<close>

theorem cancellation_is_distinct:
  assumes "loop self < length (loops w)" and "ready (loops w ! loop self) = []"
    and "\<not> closed (loops w ! loop self)"
    and "future self < length (futs w)" and "fstate (futs w ! future self) = Pending"
  shows "fst (SetCancelled self w) = Inr ()
       \<and> fstate (futs (run_once (loop self) (snd (SetCancelled self w))) ! future self) = Cancelled
       \<and> get_task self (run_once (loop self) (snd (SetCancelled self w)))
           = (Inr (FutRef (future self)), run_once (loop self) (snd (SetCancelled self w)))
       \<and> fst (await_handle (FutRef (future self)) (run_once (loop self) (snd (SetCancelled self w))))
           = Raised CancelledError
       \<and> fst (await_handle (FutRef (future self)) (run_once (loop self) (snd (SetResult self v w))))
           = Returned v
       \<and> fst (await_handle (FutRef (future self)) (run_once (loop self) (snd (SetException self e w))))
           = Raised (Exc e)
       \<and> fst (await_handle (FutRef (future self)) (run_once (loop self) (snd (SetCancelled self w))))
           \<noteq> fst (await_handle (FutRef (future self)) (run_once (loop self) (snd (SetResult self v w))))
       \<and> fst (await_handle (FutRef (future self)) (run_once (loop self) (snd (SetCancelled self w))))
           \<noteq> fst (await_handle (FutRef (future self)) (run_once (loop self) (snd (SetException self e w))))"
proof -
  note a = applied_in_round [OF assms]
  have r: "fst (SetCancelled self w) = Inr ()"
    using assms(3) by (simp add: SetCancelled_def fst_hand_off_open)
  have g: "get_task self (run_once (loop self) (snd (SetCancelled self w)))
           = (Inr (FutRef (future self)), run_once (loop self) (snd (SetCancelled self w)))"
    by (rule get_task_handle) (rule a(5))
  have o: "fst (await_handle (FutRef (future self)) (run_once (loop self) (snd (SetCancelled self w))))
           = Raised CancelledError"
    "fst (await_handle (FutRef (future self)) (run_once (loop self) (snd (SetResult self v w))))
           = Returned v"
    "fst (await_handle (FutRef (future self)) (run_once (loop self) (snd (SetException self e w))))
           = Raised (Exc e)"
    using a by (simp_all add: await_handle_done)
  from r a(2) g o show ?thesis by simp
qed

theorem cancellation_is_distinct_witness:
  "loop source0 < length (loops pending_world) \<and> ready (loops pending_world ! loop source0) = []
   \<and> \<not> closed (loops pending_world ! loop source0)
   \<and> future source0 < length (futs pending_world)
   \<and> fstate (futs pending_world ! future source0) = Pending
   \<and> fstate (futs (run_once 0 (snd (SetCancelled source0 pending_world))) ! 0) = Cancelled
   \<and> fst (await_handle (FutRef 0) (run_once 0 (snd (SetCancelled source0 pending_world))))
        = Raised CancelledError
   \<and> fst (await_handle (FutRef 0)
          (run_once 0 (snd (SetException source0 (UserError ''boom'') pending_world))))
        = Raised (Exc (UserError ''boom''))"
proof -
  have h: "loop source0 < length (loops pending_world)" "ready (loops pending_world ! loop source0) = []"
    "\<not> closed (loops pending_world ! loop source0)"
    "future source0 < length (futs pending_world)"
    "fstate (futs pending_world ! future source0) = Pending"
    by (simp_all add: world_defs)
  have s: "future source0 = 0" "loop source0 = 0"
    by (simp_all add: source0_def)
  show ?thesis
    using h s cancellation_is_distinct [OF h, where v = "PyVal 1" and e = "UserError ''boom''"]
    by simp
qed

subsection \<open>Construction with no loop at hand\<close>

text \<open>
  C8, as stated, has the construction fail where no loop is active.  In a thread with
  no running loop and no current loop whose policy still makes loops on demand (the main
  thread of CPython up to 3.13, before the first \<^verbatim>\<open>set_event_loop\<close>),
  \<^verbatim>\<open>asyncio.get_event_loop()\<close> makes a loop, and the construction succeeds on it.
\<close>

theorem construction_makes_a_loop:
  "running_loop fresh_world = None \<and> current_loop fresh_world = None \<and> loops fresh_world = []
   \<and> fst (TaskCompletionSource_init fresh_world) = Inr \<lparr>future = 0, loop = 0\<rparr>
   \<and> loops (snd (TaskCompletionSource_init fresh_world))
        = [\<lparr>ready = [], closed = False, stopping = False, exc_log = []\<rparr>]"
  by (simp add: world_defs TaskCompletionSource_init_def get_event_loop_def new_event_loop_def
        set_event_loop_def create_future_def)

text \<open>
  C8, amended.  With no running loop and no current loop, the construction does what
  \<^verbatim>\<open>asyncio.get_event_loop()\<close> does: where the policy makes no loop, the
  \<^verbatim>\<open>RuntimeError\<close> of the lookup reaches the caller and nothing is constructed; where
  the policy makes one, the completion source is bound to the new loop, which becomes
  the current loop of the thread.
\<close>

theorem construction_without_loop:
  assumes "running_loop w = None" and "current_loop w = None"
  shows "(\<not> policy_creates_loop w \<longrightarrow>
            TaskCompletionSource_init w = (Inl (Exc (RuntimeError ''There is no current event loop'')), w))
       \<and> (policy_creates_loop w \<longrightarrow>
            fst (TaskCompletionSource_init w) = Inr \<lparr>future = length (futs w), loop = length (loops w)\<rparr>
          \<and> loops (snd (TaskCompletionSource_init w))
              = loops w @ [\<lparr>ready = [], closed = False, stopping = False, exc_log = []\<rparr>]
          \<and> current_loop (snd (TaskCompletionSource_init w)) = Some (length (loops w)))"
  using assms
  by (simp add: TaskCompletionSource_init_def get_event_loop_def new_event_loop_def
        set_event_loop_def create_future_def)

theorem construction_without_loop_witness:
  "running_loop closed_world = None \<and> current_loop closed_world = None
   \<and> \<not> policy_creates_loop closed_world
   \<and> TaskCompletionSource_init closed_world
        = (Inl (Exc (RuntimeError ''There is no current event loop'')), closed_world)
   \<and> running_loop fresh_world = None \<and> current_loop fresh_world = None
   \<and> policy_creates_loop fresh_world
   \<and> fst (TaskCompletionSource_init fresh_world) = Inr \<lparr>future = 0, loop = 0\<rparr>"
proof -
  have a: "running_loop closed_world = None" "current_loop closed_world = None"
    and b: "\<not> policy_creates_loop closed_world"
    by (simp_all add: world_defs)
  have c: "running_loop fresh_world = None" "current_loop fresh_world = None"
    and d: "policy_creates_loop fresh_world" "futs fresh_world = []" "loops fresh_world = []"
    by (simp_all add: world_defs)
  show ?thesis
    using a b c d construction_without_loop [OF a] construction_without_loop [OF c]
    by simp
qed

subsection \<open>What a completion call does itself\<close>

text \<open>
  C9, as stated, has each of the three calls return \<^verbatim>\<open>None\<close>.  On a completion source
  whose loop has been closed, \<^verbatim>\<open>call_soon_threadsafe\<close> raises \<^verbatim>\<open>RuntimeError\<close>, and so
  does the call.
\<close>

theorem completion_on_closed_loop_raises:
  "fst (SetResult source0 (PyVal 1) closed_world) = Inl closed_error
   \<and> fst (SetCancelled source0 closed_world) = Inl closed_error
   \<and> fst (SetException source0 (UserError ''boom'') closed_world) = Inl closed_error"
  by (simp add: world_defs op_defs)

text \<open>
  C9, amended.  On a closed loop each of the three calls raises the loop's
  \<^verbatim>\<open>RuntimeError\<close> and changes nothing.  On an open loop each returns \<^verbatim>\<open>None\<close> and
  its only effect is one more handle at the end of the loop's ready queue.  In both
  cases the futures are what they were.  The transition happens when the loop runs the
  handle: on a future that is pending then, the state becomes finished with the value,
  cancelled, or faulted with the exception.
\<close>

theorem completion_calls_hand_off:
  assumes "loop self < length (loops w)"
  shows "(closed (loops w ! loop self) \<longrightarrow>
            SetResult self v w = (Inl closed_error, w)
          \<and> SetCancelled self w = (Inl closed_error, w)
          \<and> SetException self e w = (Inl closed_error, w))
       \<and> (\<not> closed (loops w ! loop self) \<longrightarrow>
            SetResult self v w
              = (Inr (), upd_loop (loop self)
                   (\<lambda>L. L\<lparr>ready := ready L @ [SetResultAction (future self) v]\<rparr>) w)
          \<and> ready (loops (snd (SetResult self v w)) ! loop self)
              = ready (loops w ! loop self) @ [SetResultAction (future self) v]
          \<and> SetCancelled self w
              = (Inr (), upd_loop (loop self)
                   (\<lambda>L. L\<lparr>ready := ready L @ [CancelAction (future self)]\<rparr>) w)
          \<and> ready (loops (snd (SetCancelled self w)) ! loop self)
              = ready (loops w ! loop self) @ [CancelAction (future self)]
          \<and> SetException self e w
              = (Inr (), upd_loop (loop self)
                   (\<lambda>L. L\<lparr>ready := ready L @ [SetExceptionAction (future self) e]\<rparr>) w)
          \<and> ready (loops (snd (SetException self e w)) ! loop self)
              = ready (loops w ! loop self) @ [SetExceptionAction (future self) e])
       \<and> futs (snd (SetResult self v w)) = futs w
       \<and> futs (snd (SetCancelled self w)) = futs w
       \<and> futs (snd (SetException self e w)) = futs w
       \<and> (future self < length (futs u) \<and> fstate (futs u ! future self) = Pending \<longrightarrow>
            fstate (futs (handle_run (loop self) (SetResultAction (future self) v) u) ! future self)
              = Finished v
          \<and> fstate (futs (handle_run (loop self) (CancelAction (future self)) u) ! future self)
              = Cancelled
          \<and> fstate (futs (handle_run (loop self) (SetExceptionAction (future self) e) u) ! future self)
              = Faulted e)"
proof -
  have c: "closed (loops w ! loop self) \<longrightarrow>
            SetResult self v w = (Inl closed_error, w)
          \<and> SetCancelled self w = (Inl closed_error, w)
          \<and> SetException self e w = (Inl closed_error, w)"
    by (simp add: SetResult_def SetCancelled_def SetException_def hand_off_def
          call_soon_threadsafe_def call_soon_def)
  have o: "\<not> closed (loops w ! loop self) \<longrightarrow>
            SetResult self v w
              = (Inr (), upd_loop (loop self)
                   (\<lambda>L. L\<lparr>ready := ready L @ [SetResultAction (future self) v]\<rparr>) w)
          \<and> ready (loops (snd (SetResult self v w)) ! loop self)
              = ready (loops w ! loop self) @ [SetResultAction (future self) v]
          \<and> SetCancelled self w
              = (Inr (), upd_loop (loop self)
                   (\<lambda>L. L\<lparr>ready := ready L @ [CancelAction (future self)]\<rparr>) w)
          \<and> ready (loops (snd (SetCancelled self w)) ! loop self)
              = ready (loops w ! loop self) @ [CancelAction (future self)]
          \<and> SetException self e w
              = (Inr (), upd_loop (loop self)
                   (\<lambda>L. L\<lparr>ready := ready L @ [SetExceptionAction (future self) e]\<rparr>) w)
          \<and> ready (loops (snd (SetException self e w)) ! loop self)
              = ready (loops w ! loop self) @ [SetExceptionAction (future self) e]"
    using assms
    by (simp add: SetResult_def SetCancelled_def SetException_def hand_off_def
          call_soon_threadsafe_def call_soon_def upd_loop_def)
  have f: "futs (snd (SetResult self v w)) = futs w" "futs (snd (SetCancelled self w)) = futs w"
      "futs (snd (SetException self e w)) = futs w"
    by (simp_all add: SetResult_def SetCancelled_def SetException_def)
  have r: "future self < length (futs u) \<and> fstate (futs u ! future self) = Pending \<longrightarrow>
            fstate (futs (handle_run (loop self) (SetResultAction (future self) v) u) ! future self)
              = Finished v
          \<and> fstate (futs (handle_run (loop self) (CancelAction (future self)) u) ! future self)
              = Cancelled
          \<and> fstate (futs (handle_run (loop self) (SetExceptionAction (future self) e) u) ! future self)
              = Faulted e"
  proof (intro impI, elim conjE)
    assume a: "future self < length (futs u)" "fstate (futs u ! future self) = Pending"
    have "fstate (futs (snd (run_callback (CancelAction (future self)) u)) ! future self) = Cancelled"
      using applied_cancel [OF a]
      by (cases "future_cancel (future self) u"; cases "fst (future_cancel (future self) u)")
         (simp_all add: run_callback_def)
    then show "fstate (futs (handle_run (loop self) (SetResultAction (future self) v) u) ! future self)
              = Finished v
          \<and> fstate (futs (handle_run (loop self) (CancelAction (future self)) u) ! future self)
              = Cancelled
          \<and> fstate (futs (handle_run (loop self) (SetExceptionAction (future self) e) u) ! future self)
              = Faulted e"
      using applied_set_result [OF a] applied_set_exception [OF a]
      by (simp add: futs_handle_run) (simp add: run_callback_def)
  qed
  from c o f r show ?thesis by (intro conjI)
qed

theorem completion_calls_hand_off_witness:
  "loop source0 < length (loops pending_world)
   \<and> \<not> closed (loops pending_world ! loop source0)
   \<and> future source0 < length (futs pending_world)
   \<and> fstate (futs pending_world ! future source0) = Pending
   \<and> fst (SetResult source0 (PyVal 1) pending_world) = Inr ()
   \<and> ready (loops (snd (SetResult source0 (PyVal 1) pending_world)) ! loop source0)
        = [SetResultAction (future source0) (PyVal 1)]
   \<and> futs (snd (SetResult source0 (PyVal 1) pending_world)) = futs pending_world
   \<and> fstate (futs (handle_run (loop source0) (SetResultAction (future source0) (PyVal 1)) pending_world)
        ! future source0) = Finished (PyVal 1)
   \<and> loop source0 < length (loops closed_world)
   \<and> closed (loops closed_world ! loop source0)
   \<and> SetResult source0 (PyVal 1) closed_world = (Inl closed_error, closed_world)"
proof -
  have h: "loop source0 < length (loops pending_world)"
    and o: "\<not> closed (loops pending_world ! loop source0)"
    and p: "future source0 < length (futs pending_world)"
      "fstate (futs pending_world ! future source0) = Pending"
    and q: "ready (loops pending_world ! loop source0) = []"
    by (simp_all add: world_defs)
  have h': "loop source0 < length (loops closed_world)"
    and c: "closed (loops closed_world ! loop source0)"
    by (simp_all add: world_defs)
  show ?thesis
    using h o p q h' c
      completion_calls_hand_off [OF h, where v = "PyVal 1" and e = "UserError ''boom''" and u = pending_world]
      completion_calls_hand_off [OF h', where v = "PyVal 1" and e = "UserError ''boom''" and u = closed_world]
    by clarsimp
qed

subsection \<open>Coroutine objects\<close>

text \<open>
  C10.  Each call of \<^verbatim>\<open>zero()\<close>, \<^verbatim>\<open>from_result(v)\<close> and \<^verbatim>\<open>get_awaiter(a)\<close> returns a new
  coroutine object: its reference is the next free place of the store, which grows by
  one, so a second call returns another object.  Awaiting the object of \<^verbatim>\<open>zero()\<close> gives
  \<^verbatim>\<open>None\<close> and that of \<^verbatim>\<open>from_result(v)\<close> gives \<open>v\<close>; awaiting either a second time raises
  \<^verbatim>\<open>RuntimeError\<close> (the coroutine cannot be reused).  Awaiting the object of
  \<^verbatim>\<open>get_awaiter(a)\<close> a second time raises \<^verbatim>\<open>RuntimeError\<close> as well, whatever the first
  await did: the coroutine is finished by then, or still suspended in its first await.
\<close>

theorem awaitables_fresh_single_use:
  "fst (zero_task w) = CoroRef (length (coros w))
   \<and> fst (from_result v w) = CoroRef (length (coros w))
   \<and> fst (get_awaiter a w) = CoroRef (length (coros w))
   \<and> length (coros (snd (zero_task w))) = Suc (length (coros w))
   \<and> length (coros (snd (from_result v w))) = Suc (length (coros w))
   \<and> length (coros (snd (get_awaiter a w))) = Suc (length (coros w))
   \<and> fst (zero_task (snd (zero_task w))) \<noteq> fst (zero_task w)
   \<and> fst (from_result v (snd (from_result v w))) \<noteq> fst (from_result v w)
   \<and> fst (get_awaiter a (snd (get_awaiter a w))) \<noteq> fst (get_awaiter a w)
   \<and> fst (await_handle (fst (zero_task w)) (snd (zero_task w))) = Returned PyNone
   \<and> fst (await_handle (fst (zero_task w))
        (snd (await_handle (fst (zero_task w)) (snd (zero_task w))))) = Raised reuse_error
   \<and> fst (await_handle (fst (from_result v w)) (snd (from_result v w))) = Returned v
   \<and> fst (await_handle (fst (from_result v w))
        (snd (await_handle (fst (from_result v w)) (snd (from_result v w))))) = Raised reuse_error
   \<and> (fst (await_handle (fst (get_awaiter a w))
          (snd (await_handle (fst (get_awaiter a w)) (snd (get_awaiter a w))))) = Raised reuse_error
      \<or> fst (await_handle (fst (get_awaiter a w))
          (snd (await_handle (fst (get_awaiter a w)) (snd (get_awaiter a w))))) = Raised awaited_already)"
proof -
  let ?g = "length (coros w)"
  have f: "fst (zero_task w) = CoroRef ?g" "fst (from_result v w) = CoroRef ?g"
    "fst (get_awaiter a w) = CoroRef ?g"
    "length (coros (snd (zero_task w))) = Suc ?g"
    "length (coros (snd (from_result v w))) = Suc ?g"
    "length (coros (snd (get_awaiter a w))) = Suc ?g"
    by (simp_all add: zero_task_def from_result_def get_awaiter_def new_coro_def)
  have n: "fst (zero_task (snd (zero_task w))) \<noteq> fst (zero_task w)"
    "fst (from_result v (snd (from_result v w))) \<noteq> fst (from_result v w)"
    "fst (get_awaiter a (snd (get_awaiter a w))) \<noteq> fst (get_awaiter a w)"
    by (simp_all add: zero_task_def from_result_def get_awaiter_def new_coro_def)
  have z: "?g < length (coros (snd (zero_task w)))"
    "cstatus (coros (snd (zero_task w)) ! ?g) = Created"
    "cbody (coros (snd (zero_task w)) ! ?g) = Return PyNone"
    by (simp_all add: zero_task_def new_coro_def)
  have r: "?g < length (coros (snd (from_result v w)))"
    "cstatus (coros (snd (from_result v w)) ! ?g) = Created"
    "cbody (coros (snd (from_result v w)) ! ?g) = Return v"
    by (simp_all add: from_result_def new_coro_def)
  have g: "?g < length (coros (snd (get_awaiter a w)))"
    "cstatus (coros (snd (get_awaiter a w)) ! ?g) = Created"
    "cbody (coros (snd (get_awaiter a w)) ! ?g) = ReturnAwaitEnsure a"
    by (simp_all add: get_awaiter_def new_coro_def)
  note z1 = await_returning_coroutine [OF z]
  note r1 = await_returning_coroutine [OF r]
  note g1 = await_get_value_coroutine [OF g]
  have z2: "fst (await_handle (CoroRef ?g) (snd (await_handle (CoroRef ?g) (snd (zero_task w)))))
      = Raised reuse_error"
    by (rule await_closed_coroutine [OF z1(2,3)])
  have r2: "fst (await_handle (CoroRef ?g) (snd (await_handle (CoroRef ?g) (snd (from_result v w)))))
      = Raised reuse_error"
    by (rule await_closed_coroutine [OF r1(2,3)])
  have g2: "fst (await_handle (CoroRef ?g) (snd (await_handle (CoroRef ?g) (snd (get_awaiter a w)))))
        = Raised reuse_error
      \<or> fst (await_handle (CoroRef ?g) (snd (await_handle (CoroRef ?g) (snd (get_awaiter a w)))))
        = Raised awaited_already"
    using g1 await_closed_coroutine await_suspended_coroutine by blast
  from f n z1(1) r1(1) z2 r2 g2 show ?thesis by simp
qed

theorem awaitables_fresh_single_use_witness:
  "fst (zero_task fresh_world) = CoroRef 0
   \<and> fst (zero_task (snd (zero_task fresh_world))) \<noteq> fst (zero_task fresh_world)
   \<and> fst (await_handle (fst (zero_task fresh_world)) (snd (zero_task fresh_world))) = Returned PyNone
   \<and> fst (await_handle (fst (zero_task fresh_world))
        (snd (await_handle (fst (zero_task fresh_world)) (snd (zero_task fresh_world)))))
        = Raised reuse_error
   \<and> fst (await_handle (fst (from_result (PyVal 3) fresh_world))
        (snd (await_handle (fst (from_result (PyVal 3) fresh_world))
               (snd (from_result (PyVal 3) fresh_world)))))
        = Raised reuse_error"
proof -
  have c: "length (coros fresh_world) = 0"
    by (simp add: fresh_world_def)
  from awaitables_fresh_single_use [of fresh_world "PyVal 3" "FutRef 0"]
  show ?thesis
    unfolding c by (elim conjE) simp
qed

end
